theory Spec2Isabelle
  imports Main "HOL-Library.Word" "HOL-Library.Signed_Division"
begin

unbundle bit_operations_syntax

section \<open>Data model of the assembler (src/assembler.cpp)\<close>

text \<open>
  The embedding follows \<^verbatim>\<open>src/assembler.cpp\<close>, the whole-buffer assembler. Machine
  integers are words of the width the source declares (\<^verbatim>\<open>uint32_t\<close>, \<^verbatim>\<open>int32_t\<close> as
  \<open>32 word\<close>, \<^verbatim>\<open>uint16_t\<close> as \<open>16 word\<close>, \<^verbatim>\<open>uint8_t\<close> as \<open>8 word\<close>). A \<^verbatim>\<open>SubString\<close> is a view
  into the source buffer; it is modelled by the characters it spans. The buffer is the
  list of characters in front of its terminating NUL (\<^verbatim>\<open>read_entire_file\<close> stores no
  terminator behind the bytes it reads; the model takes the byte behind them to be NUL,
  as the loops of \<^verbatim>\<open>to_upper\<close> and \<^verbatim>\<open>main\<close> expect). Characters are compared by their
  code, 0 to 255; the words of the lexer hold only \<^verbatim>\<open>.\<close>, \<^verbatim>\<open>:\<close>, digits, capital letters
  and the newline. \<^verbatim>\<open>assert\<close> is taken as compiled in. Of what the program prints on
  standard output, only the report of \<^verbatim>\<open>asm_assert\<close> is modelled (the character that
  \<^verbatim>\<open>get_word\<close> echoes is not).
\<close>

definition ROM_SIZE :: nat where
  "ROM_SIZE = 1024"

definition MAX_INSTR :: nat where
  "MAX_INSTR = ROM_SIZE div 2"

definition MAX_LABELS :: nat where
  "MAX_LABELS = 512"

text \<open>The global \<^verbatim>\<open>line_num\<close> is initialised to 0 and no statement of
  \<^verbatim>\<open>src/assembler.cpp\<close> assigns it.\<close>

definition line_num :: nat where
  "line_num = 0"

datatype InstructionFormat = A0 | A1 | A2 | A3 | B1 | B2 | L1 | L2

record OpData =
  mnemonic :: string
  opcode :: "32 word"
  format :: InstructionFormat
  upper :: bool

definition mk_op :: "string \<Rightarrow> 32 word \<Rightarrow> InstructionFormat \<Rightarrow> bool \<Rightarrow> OpData" where
  "mk_op m c f u = \<lparr>mnemonic = m, opcode = c, format = f, upper = u\<rparr>"

definition OP :: "OpData list" where
  "OP =
   [mk_op ''NOP'' 0 A0 False,
    mk_op ''ADD'' 1 A1 False,
    mk_op ''SUB'' 2 A1 False,
    mk_op ''MUL'' 3 A1 False,
    mk_op ''NAND'' 4 A1 False,
    mk_op ''SHL'' 5 A2 False,
    mk_op ''SHR'' 6 A2 False,
    mk_op ''TEST'' 7 A3 False,
    mk_op ''MUH'' 8 A1 False,
    mk_op ''OUT'' 32 A3 False,
    mk_op ''IN'' 33 A3 False,
    mk_op ''BRR'' 64 B1 False,
    mk_op ''BRR.N'' 65 B1 False,
    mk_op ''BRR.Z'' 66 B1 False,
    mk_op ''BRR.O'' 73 B1 False,
    mk_op ''BR'' 67 B2 False,
    mk_op ''BR.N'' 68 B2 False,
    mk_op ''BR.Z'' 69 B2 False,
    mk_op ''BR.O'' 72 B2 False,
    mk_op ''BR.SUB'' 70 B2 False,
    mk_op ''RETURN'' 71 A0 False,
    mk_op ''LOAD'' 16 L2 False,
    mk_op ''STORE'' 17 L2 False,
    mk_op ''LOADIMM.LOWER'' 18 L1 False,
    mk_op ''LOADIMM.UPPER'' 18 L1 True,
    mk_op ''MOV'' 19 L2 False]"

record Label =
  label_name :: string
  label_addr :: "32 word"

record Instr =
  instr_addr :: "32 word"
  instr_op :: string
  instr_args :: "string list"

text \<open>
  The ways a run ends without output. \<^verbatim>\<open>asm_assert\<close> prints
  \<^verbatim>\<open>Line <line_num>: <message>\<close> and calls \<^verbatim>\<open>exit(1)\<close>: \<open>AsmError\<close> carries the line
  number printed and the message. A failed \<^verbatim>\<open>assert\<close> aborts the process
  (\<open>AssertionFailed\<close>). A write outside \<^verbatim>\<open>rom_data\<close> has no defined behaviour
  (\<open>RomOutOfBounds\<close>).
\<close>

datatype asm_message =
  MalformedConstant | OperandOutOfRange | UnknownLabel | DuplicateLabel
  | InvalidRegister | OperandCountMismatch

fun message_text :: "asm_message \<Rightarrow> string" where
  "message_text MalformedConstant = ''malformed constant''"
| "message_text OperandOutOfRange = ''argument needs too many bits''"
| "message_text UnknownLabel = ''label not found''"
| "message_text DuplicateLabel = ''duplicate label''"
| "message_text InvalidRegister = ''not a valid register''"
| "message_text OperandCountMismatch = ''too many args''"

datatype failure = AsmError nat asm_message | AssertionFailed | RomOutOfBounds

definition asm_assert :: "bool \<Rightarrow> asm_message \<Rightarrow> failure + unit" where
  "asm_assert condition err_msg = (if condition then Inr () else Inl (AsmError line_num err_msg))"

section \<open>Lexer\<close>

abbreviation NL :: char where
  "NL \<equiv> CHR 0x0A"

abbreviation NUL :: char where
  "NUL \<equiv> CHR 0x00"

definition in_range :: "char \<Rightarrow> char \<Rightarrow> char \<Rightarrow> bool" where
  "in_range lo hi c = ((of_char lo :: nat) \<le> of_char c \<and> (of_char c :: nat) \<le> of_char hi)"

definition to_upper_char :: "char \<Rightarrow> char" where
  "to_upper_char c = (if in_range CHR ''a'' CHR ''z'' c then char_of (of_char c - (32::nat)) else c)"

definition to_upper :: "string \<Rightarrow> string" where
  "to_upper buf = map to_upper_char buf"

text \<open>The characters a word is made of: the test of \<^verbatim>\<open>skip_word\<close>.\<close>

definition is_word_char :: "char \<Rightarrow> bool" where
  "is_word_char c =
     (c = CHR ''.'' \<or> c = CHR '':'' \<or> in_range CHR ''A'' CHR ''Z'' c \<or> in_range CHR ''0'' CHR ''9'' c)"

fun skip_blank :: "string \<Rightarrow> string" where
  "skip_blank [] = []"
| "skip_blank (c # cs) = (if is_word_char c \<or> c = NL then c # cs else skip_blank cs)"

fun skip_word_run :: "string \<Rightarrow> string" where
  "skip_word_run [] = []"
| "skip_word_run (c # cs) = (if is_word_char c then skip_word_run cs else c # cs)"

definition skip_word :: "string \<Rightarrow> string" where
  "skip_word buf = (case buf of [] \<Rightarrow> [] | c # cs \<Rightarrow> if c = NL then cs else skip_word_run buf)"

text \<open>\<^verbatim>\<open>get_word\<close> returns the word and leaves the cursor behind it: the pair of the
  word and the rest of the buffer.\<close>

definition get_word :: "string \<Rightarrow> string \<times> string" where
  "get_word buf =
     (let start = skip_blank buf; rest = skip_word start
      in (take (length start - length rest) start, rest))"

text \<open>\<^verbatim>\<open>SubString::operator==(const char*)\<close>: compares \<open>len\<close> characters, then
  requires the literal to end. The characters of a word are never NUL, so a literal
  that ends early differs at its terminator.\<close>

fun eq_cstr :: "string \<Rightarrow> string \<Rightarrow> bool" where
  "eq_cstr [] rhs = (rhs = [])"
| "eq_cstr (c # cs) [] = False"
| "eq_cstr (c # cs) (r # rs) = (if c \<noteq> r then False else eq_cstr cs rs)"

fun lookup_op_from :: "nat \<Rightarrow> OpData list \<Rightarrow> string \<Rightarrow> nat option" where
  "lookup_op_from i [] word = None"
| "lookup_op_from i (d # ds) word =
     (if eq_cstr word (mnemonic d) then Some i else lookup_op_from (Suc i) ds word)"

text \<open>\<open>None\<close> is \<^verbatim>\<open>INVALID_OP\<close>.\<close>

definition lookup_op :: "string \<Rightarrow> nat option" where
  "lookup_op word = lookup_op_from 0 OP word"

definition is_label :: "string \<Rightarrow> bool" where
  "is_label word = (if length word = 0 then False else word ! (length word - 1) = CHR '':'')"

definition is_comment :: "string \<Rightarrow> bool" where
  "is_comment word = (if length word = 0 then False else word ! 0 = CHR '';'')"

section \<open>Numeric literal parser\<close>

text \<open>Sequencing of steps that may end the run: the first failure is the result.\<close>

definition and_then :: "failure + 'a \<Rightarrow> ('a \<Rightarrow> failure + 'b) \<Rightarrow> failure + 'b" where
  "and_then m f = (case m of Inl e \<Rightarrow> Inl e | Inr x \<Rightarrow> f x)"

text \<open>
  The C library's \<^verbatim>\<open>strtoul\<close> (ISO C 7.22.1.4) on a platform whose
  \<^verbatim>\<open>unsigned long\<close> has 64 bits: white space, an optional sign, for base 16 an optional
  \<^verbatim>\<open>0x\<close>, then the longest run of digits of the base; no digits give 0, a value beyond
  \<^verbatim>\<open>ULONG_MAX\<close> gives \<^verbatim>\<open>ULONG_MAX\<close>, a minus sign negates in the unsigned type.
\<close>

definition is_space :: "char \<Rightarrow> bool" where
  "is_space c = (c = CHR '' '' \<or> ((9::nat) \<le> of_char c \<and> (of_char c :: nat) \<le> 13))"

definition digit_value :: "char \<Rightarrow> nat option" where
  "digit_value c =
     (if in_range CHR ''0'' CHR ''9'' c then Some (of_char c - 48)
      else if in_range CHR ''A'' CHR ''Z'' c then Some (of_char c - 55)
      else if in_range CHR ''a'' CHR ''z'' c then Some (of_char c - 87)
      else None)"

fun strtoul_digits :: "nat \<Rightarrow> nat \<Rightarrow> string \<Rightarrow> nat" where
  "strtoul_digits base acc [] = acc"
| "strtoul_digits base acc (c # cs) =
     (case digit_value c of
        None \<Rightarrow> acc
      | Some d \<Rightarrow> if d < base then strtoul_digits base (acc * base + d) cs else acc)"

definition ULONG_MAX :: nat where
  "ULONG_MAX = 18446744073709551615"

definition strtoul :: "string \<Rightarrow> nat \<Rightarrow> 64 word" where
  "strtoul s base =
     (let s1 = dropWhile is_space s;
          negative = (case s1 of [] \<Rightarrow> False | c # _ \<Rightarrow> c = CHR ''-'');
          s2 = (case s1 of [] \<Rightarrow> [] | c # cs \<Rightarrow> if c = CHR ''-'' \<or> c = CHR ''+'' then cs else s1);
          s3 = (if base = 16 \<and> 2 \<le> length s2 \<and> s2 ! 0 = CHR ''0''
                   \<and> (s2 ! 1 = CHR ''x'' \<or> s2 ! 1 = CHR ''X'')
                then drop 2 s2 else s2);
          v = strtoul_digits base 0 s3
      in if ULONG_MAX < v then 0xFFFFFFFFFFFFFFFF
         else if negative then - word_of_nat v else word_of_nat v)"

text \<open>\<^verbatim>\<open>std::string(data, len).c_str()\<close>: the characters up to the first NUL.\<close>

definition c_str :: "string \<Rightarrow> string" where
  "c_str s = takeWhile (\<lambda>c. c \<noteq> NUL) s"

text \<open>The validation loop of \<^verbatim>\<open>parse_num\<close>: it stops at the first character that is not
  a digit of the base.\<close>

fun valid_digits :: "nat \<Rightarrow> string \<Rightarrow> bool" where
  "valid_digits base [] = True"
| "valid_digits base (c # cs) =
     (let valid_number =
        (if base = 10 then in_range CHR ''0'' CHR ''9'' c
         else if base = 16 then in_range CHR ''0'' CHR ''9'' c \<or> in_range CHR ''A'' CHR ''F'' c
         else if base = 2 then (c = CHR ''0'' \<or> c = CHR ''1'')
         else True)
      in if valid_number then valid_digits base cs else False)"

text \<open>The range test: the bits from \<open>bits\<close> upwards of the 32-bit result are all 0 or
  all 1. The mask keeps the \<open>bits\<close> low bits.\<close>

definition high_bits :: "nat \<Rightarrow> 32 word" where
  "high_bits bits = push_bit bits 0xffffffff"

definition range_ok :: "32 word \<Rightarrow> nat \<Rightarrow> bool" where
  "range_ok result bits =
     (result AND high_bits bits = 0 \<or> result AND high_bits bits = high_bits bits)"

definition mask_bits :: "32 word \<Rightarrow> nat \<Rightarrow> 32 word" where
  "mask_bits result bits = result AND NOT (high_bits bits)"

text \<open>
  \<^verbatim>\<open>parse_num(num_str, bits, success)\<close>. \<open>has_success\<close> says that the pointer
  \<^verbatim>\<open>success\<close> is not null; the second component of the result is what the function
  stores through it (\<^verbatim>\<open>valid_number\<close>). The sign test reads \<^verbatim>\<open>num_str[0]\<close> whatever the
  length: an empty word of the lexer stands at the buffer's terminating NUL.
\<close>

definition parse_num :: "string \<Rightarrow> nat \<Rightarrow> bool \<Rightarrow> failure + (32 word \<times> bool)" where
  "parse_num num_str bits has_success =
     (let c0 = (case num_str of [] \<Rightarrow> NUL | c # _ \<Rightarrow> c);
          negative = (c0 = CHR ''-'');
          s1 = (if c0 = CHR ''+'' \<or> c0 = CHR ''-'' then tl num_str else num_str);
          is_hex = (2 \<le> length s1 \<and> s1 ! 1 = CHR ''X'');
          is_bin = (2 \<le> length s1 \<and> s1 ! 1 \<noteq> CHR ''X'' \<and> s1 ! 1 = CHR ''B'');
          base = (if is_hex then 16 else if is_bin then 2 else 10);
          s2 = (if is_hex \<or> is_bin then drop 2 s1 else s1);
          valid_number = valid_digits base s2
      in and_then (asm_assert (if is_hex \<or> is_bin then s1 ! 0 = CHR ''0'' else True) MalformedConstant)
         (\<lambda>_. and_then (asm_assert (if has_success then True else valid_number) MalformedConstant)
         (\<lambda>_. let r0 = (ucast (strtoul (c_str s2) base) :: 32 word);
                  result = (if negative then - r0 else r0)
              in and_then (asm_assert (range_ok result bits) OperandOutOfRange)
                 (\<lambda>_. Inr (mask_bits result bits, valid_number)))))"

section \<open>Operands and instruction encoding\<close>

text \<open>The loop of \<^verbatim>\<open>parse_constant\<close> over the label table: it does not stop at a match.
  The displacement is computed in \<^verbatim>\<open>int32_t\<close>, the division truncates towards zero.\<close>

definition displacement :: "32 word \<Rightarrow> 32 word \<Rightarrow> 32 word" where
  "displacement target addr = word_of_int (sint (target - addr) sdiv 2)"

fun label_loop :: "Label list \<Rightarrow> string \<Rightarrow> 32 word \<Rightarrow> nat \<Rightarrow> 32 word \<times> bool \<Rightarrow> failure + (32 word \<times> bool)" where
  "label_loop [] const_str addr bits (result, label_found) = Inr (result, label_found)"
| "label_loop (l # ls) const_str addr bits (result, label_found) =
     (if const_str = label_name l
      then let r = displacement (label_addr l) addr
           in and_then (asm_assert (range_ok r bits) OperandOutOfRange)
                (\<lambda>_. label_loop ls const_str addr bits (mask_bits r bits, True))
      else label_loop ls const_str addr bits (result, label_found))"

definition parse_constant :: "string \<Rightarrow> 32 word \<Rightarrow> Label list \<Rightarrow> nat \<Rightarrow> failure + 32 word" where
  "parse_constant const_str addr labels bits =
     and_then (parse_num const_str bits True)
       (\<lambda>(result, valid_number).
          if valid_number then Inr result
          else and_then (label_loop labels const_str addr bits (result, False))
                 (\<lambda>(result', label_found).
                    and_then (asm_assert label_found UnknownLabel) (\<lambda>_. Inr result')))"

text \<open>\<^verbatim>\<open>reg_str[1] - '0'\<close>, converted to \<^verbatim>\<open>uint32_t\<close>.\<close>

definition parse_reg :: "string \<Rightarrow> failure + 32 word" where
  "parse_reg reg_str =
     and_then (asm_assert (length reg_str = 2 \<and> reg_str ! 0 = CHR ''R'') InvalidRegister)
       (\<lambda>_. Inr (word_of_int (int (of_char (reg_str ! 1)) - int (of_char CHR ''0''))))"

text \<open>\<^verbatim>\<open>instr |= x\<close> on the \<^verbatim>\<open>uint16_t\<close> instruction word keeps the 16 low bits of \<open>x\<close>.\<close>

definition or_in :: "16 word \<Rightarrow> 32 word \<Rightarrow> 16 word" where
  "or_in instr x = instr OR ucast x"

definition parse_instruction :: "string \<Rightarrow> string list \<Rightarrow> Label list \<Rightarrow> 32 word \<Rightarrow> failure + 16 word" where
  "parse_instruction op_str args labels addr =
     (case lookup_op op_str of
        None \<Rightarrow> Inl AssertionFailed
      | Some op_idx \<Rightarrow>
          let op = OP ! op_idx;
              instr = or_in 0 (push_bit 9 (opcode op))
          in (case format op of
                A0 \<Rightarrow> and_then (asm_assert (length args = 0) OperandCountMismatch) (\<lambda>_. Inr instr)
              | A1 \<Rightarrow>
                  and_then (asm_assert (length args = 3) OperandCountMismatch) (\<lambda>_.
                  and_then (parse_reg (args ! 0)) (\<lambda>r0.
                  and_then (parse_reg (args ! 1)) (\<lambda>r1.
                  and_then (parse_reg (args ! 2)) (\<lambda>r2.
                    Inr (or_in (or_in (or_in instr (push_bit 6 r0)) (push_bit 3 r1)) r2)))))
              | A2 \<Rightarrow>
                  and_then (asm_assert (length args = 2) OperandCountMismatch) (\<lambda>_.
                  and_then (parse_reg (args ! 0)) (\<lambda>r0.
                  and_then (parse_num (args ! 1) 4 False) (\<lambda>(n, _).
                    Inr (or_in (or_in instr (push_bit 6 r0)) n))))
              | A3 \<Rightarrow>
                  and_then (asm_assert (length args = 1) OperandCountMismatch) (\<lambda>_.
                  and_then (parse_reg (args ! 0)) (\<lambda>r0.
                    Inr (or_in instr (push_bit 6 r0))))
              | B1 \<Rightarrow>
                  and_then (asm_assert (length args = 1) OperandCountMismatch) (\<lambda>_.
                  and_then (parse_constant (args ! 0) addr labels 9) (\<lambda>n.
                    Inr (or_in instr n)))
              | B2 \<Rightarrow>
                  and_then (asm_assert (length args = 2) OperandCountMismatch) (\<lambda>_.
                  and_then (parse_reg (args ! 0)) (\<lambda>r0.
                  and_then (parse_num (args ! 1) 6 False) (\<lambda>(n, _).
                    Inr (or_in (or_in instr (push_bit 6 r0)) n))))
              | L1 \<Rightarrow>
                  and_then (asm_assert (length args = 1) OperandCountMismatch) (\<lambda>_.
                  let instr1 = (if upper op then or_in instr (push_bit 8 1) else instr)
                  in and_then (parse_num (args ! 0) 8 False) (\<lambda>(n, _).
                       Inr (or_in instr1 n)))
              | L2 \<Rightarrow>
                  and_then (asm_assert (length args = 2) OperandCountMismatch) (\<lambda>_.
                  and_then (parse_reg (args ! 0)) (\<lambda>r0.
                  and_then (parse_reg (args ! 1)) (\<lambda>r1.
                    Inr (or_in (or_in instr (push_bit 6 r0)) (push_bit 3 r1)))))))"

section \<open>Driver\<close>

text \<open>The state of the first loop of \<^verbatim>\<open>main\<close>: the two fixed-capacity arrays, the
  comment flag and the address cursor.\<close>

record driver_state =
  instructions :: "Instr list"
  labels :: "Label list"
  in_comment :: bool
  next_addr :: "32 word"

definition init_state :: driver_state where
  "init_state = \<lparr>instructions = [], labels = [], in_comment = False, next_addr = 0\<rparr>"

text \<open>The duplicate test: one \<^verbatim>\<open>asm_assert\<close> for each label already recorded.\<close>

fun check_duplicate :: "Label list \<Rightarrow> string \<Rightarrow> failure + unit" where
  "check_duplicate [] word = Inr ()"
| "check_duplicate (l # ls) word =
     and_then (asm_assert (label_name l \<noteq> word) DuplicateLabel) (\<lambda>_. check_duplicate ls word)"

text \<open>
  The operand loop. \<^verbatim>\<open>Array<SubString, 3>::push\<close> asserts \<^verbatim>\<open>size < max_size\<close>; at the end
  of the buffer \<^verbatim>\<open>get_word\<close> keeps returning the empty word, which is neither a comment nor
  a newline, so the loop ends there by that assertion.
\<close>

function arg_loop :: "string list \<Rightarrow> string \<Rightarrow> string \<Rightarrow> failure + (string list \<times> string)" where
  "arg_loop args word file_pos =
     (if \<not> is_comment word \<and> \<not> eq_cstr word [NL]
      then if length args < 3
           then (case get_word file_pos of (word', file_pos') \<Rightarrow> arg_loop (args @ [word]) word' file_pos')
           else Inl AssertionFailed
      else Inr (args, file_pos))"
  by pat_completeness auto
termination
  by (relation "measure (\<lambda>(args, word, file_pos). 3 - length args)") auto

declare arg_loop.simps [simp del]

lemma skip_blank_length: "length (skip_blank buf) \<le> length buf"
  by (induction buf) auto

lemma skip_word_run_length: "length (skip_word_run buf) \<le> length buf"
  by (induction buf) auto

lemma skip_blank_start:
  "skip_blank buf = c # cs \<Longrightarrow> is_word_char c \<or> c = NL"
  by (induction buf) (auto split: if_splits)

lemma skip_word_shorter:
  "is_word_char c \<or> c = NL \<Longrightarrow> length (skip_word (c # cs)) < length (c # cs)"
  using skip_word_run_length [of cs] by (auto simp: skip_word_def)

lemma get_word_shorter:
  assumes "buf \<noteq> []"
  shows "length (snd (get_word buf)) < length buf"
proof (cases "skip_blank buf")
  case Nil
  then show ?thesis using assms by (simp add: get_word_def skip_word_def)
next
  case (Cons c cs)
  then have "length (skip_word (c # cs)) < length (c # cs)"
    using skip_blank_start skip_word_shorter by blast
  moreover have "length (c # cs) \<le> length buf"
    using skip_blank_length [of buf] Cons by simp
  ultimately show ?thesis using Cons by (simp add: get_word_def Let_def)
qed

lemma get_word_length: "length (snd (get_word buf)) \<le> length buf"
  using get_word_shorter [of buf] by (cases "buf = []") (auto simp: get_word_def skip_word_def)

lemma get_word_shorter_eq:
  "(w, p) = get_word buf \<Longrightarrow> buf \<noteq> [] \<Longrightarrow> length p < length buf"
  using get_word_shorter [of buf] by (metis snd_conv)

lemma get_word_length_eq:
  "(w, p) = get_word buf \<Longrightarrow> length p \<le> length buf"
  using get_word_length [of buf] by (metis snd_conv)

lemma get_word_rest_eq:
  "(w, p) = get_word buf \<Longrightarrow> length p \<le> length buf \<and> (buf \<noteq> [] \<longrightarrow> length p < length buf)"
  using get_word_shorter_eq get_word_length_eq by blast

lemma arg_loop_length:
  "arg_loop args word file_pos = Inr (args', file_pos') \<Longrightarrow> length file_pos' \<le> length file_pos"
proof (induction args word file_pos rule: arg_loop.induct)
  case (1 args word file_pos)
  show ?case
  proof (cases "\<not> is_comment word \<and> \<not> eq_cstr word [NL] \<and> length args < 3")
    case True
    obtain w p where gw: "get_word file_pos = (w, p)" by (cases "get_word file_pos")
    from True gw "1.prems" have "arg_loop (args @ [word]) w p = Inr (args', file_pos')"
      by (simp add: arg_loop.simps [of args])
    with "1.IH" True gw have "length file_pos' \<le> length p" by simp
    moreover have "length p \<le> length file_pos" using get_word_length [of file_pos] gw by simp
    ultimately show ?thesis by simp
  next
    case False
    with "1.prems" show ?thesis by (auto simp: arg_loop.simps [of args] split: if_splits)
  qed
qed

text \<open>
  The first loop of \<^verbatim>\<open>main\<close>: \<^verbatim>\<open>while (file_pos[0])\<close> over the upper-cased buffer. The
  pushes onto \<^verbatim>\<open>labels\<close> and \<^verbatim>\<open>instructions\<close> assert the capacities \<^verbatim>\<open>MAX_LABELS\<close> and
  \<^verbatim>\<open>MAX_INSTR\<close>.
\<close>

function main_loop :: "driver_state \<Rightarrow> string \<Rightarrow> failure + driver_state" where
  "main_loop st file_pos =
     (if file_pos = [] then Inr st
      else case get_word file_pos of (word, pos1) \<Rightarrow>
        if in_comment st \<and> eq_cstr word [NL] then main_loop (st\<lparr>in_comment := False\<rparr>) pos1
        else if is_comment word then main_loop (st\<lparr>in_comment := True\<rparr>) pos1
        else if eq_cstr word ''ORG'' then
          (case get_word pos1 of (word2, pos2) \<Rightarrow>
             (case parse_num word2 16 False of
                Inl e \<Rightarrow> Inl e
              | Inr (v, _) \<Rightarrow> main_loop (st\<lparr>next_addr := v\<rparr>) pos2))
        else if is_label word then
          (case check_duplicate (labels st) (butlast word) of
             Inl e \<Rightarrow> Inl e
           | Inr _ \<Rightarrow>
               if length (labels st) < MAX_LABELS
               then main_loop
                      (st\<lparr>labels := labels st @ [\<lparr>label_name = butlast word, label_addr = next_addr st\<rparr>]\<rparr>)
                      pos1
               else Inl AssertionFailed)
        else
          (case lookup_op word of
             None \<Rightarrow> main_loop st pos1
           | Some op_idx \<Rightarrow>
               (case get_word pos1 of (word2, pos2) \<Rightarrow>
                  (case arg_loop [] word2 pos2 of
                     Inl e \<Rightarrow> Inl e
                   | Inr (args, pos3) \<Rightarrow>
                       if length (instructions st) < MAX_INSTR
                       then main_loop
                              (st\<lparr>instructions := instructions st @
                                     [\<lparr>instr_addr = next_addr st, instr_op = word, instr_args = args\<rparr>],
                                   next_addr := next_addr st + 2\<rparr>)
                              pos3
                       else Inl AssertionFailed))))"
  by pat_completeness auto
termination
proof (relation "measure (\<lambda>(st, file_pos). length file_pos)", goal_cases)
  case 1
  show ?case by simp
next
  case 2
  then show ?case by (auto dest: get_word_shorter_eq)
next
  case 3
  then show ?case by (auto dest: get_word_shorter_eq)
next
  case 4
  then show ?case by (auto dest!: get_word_rest_eq)
next
  case 5
  then show ?case by (auto dest: get_word_shorter_eq)
next
  case 6
  then show ?case by (auto dest: get_word_shorter_eq)
next
  case 7
  then show ?case by (auto dest!: get_word_rest_eq arg_loop_length)
qed

declare main_loop.simps [simp del]

text \<open>The second loop of \<^verbatim>\<open>main\<close>: encode each instruction and store it high byte first.
  \<^verbatim>\<open>rom_data\<close> has \<^verbatim>\<open>ROM_SIZE\<close> bytes and the source checks no index.\<close>

fun encode_loop :: "Instr list \<Rightarrow> Label list \<Rightarrow> 8 word list \<Rightarrow> failure + 8 word list" where
  "encode_loop [] lbls rom_data = Inr rom_data"
| "encode_loop (i # rest) lbls rom_data =
     and_then (parse_instruction (instr_op i) (instr_args i) lbls (instr_addr i))
       (\<lambda>instr.
          let addr = unat (instr_addr i)
          in if addr + 1 < ROM_SIZE
             then encode_loop rest lbls
                    (rom_data[addr := ucast (drop_bit 8 instr AND 0xFF), addr + 1 := ucast (instr AND 0xFF)])
             else Inl RomOutOfBounds)"

text \<open>\<^verbatim>\<open>fprintf(output_file, "%02X%02X\n", rom_data[i], rom_data[i + 1])\<close> for
  \<open>i = 0, 2, ...\<close> below \<^verbatim>\<open>ROM_SIZE\<close>: the lines written, in order.\<close>

definition hex_digit :: "nat \<Rightarrow> char" where
  "hex_digit n = ''0123456789ABCDEF'' ! n"

definition fmt_02X :: "8 word \<Rightarrow> string" where
  "fmt_02X b = [hex_digit (unat b div 16), hex_digit (unat b mod 16)]"

definition output_line :: "8 word list \<Rightarrow> nat \<Rightarrow> string" where
  "output_line rom_data i = fmt_02X (rom_data ! i) @ fmt_02X (rom_data ! (i + 1)) @ [NL]"

definition output_lines :: "8 word list \<Rightarrow> string list" where
  "output_lines rom_data = map (\<lambda>k. output_line rom_data (2 * k)) [0..<ROM_SIZE div 2]"

text \<open>\<^verbatim>\<open>main\<close> on the bytes of the input file: upper-case the buffer (up to its
  terminator), collect labels and instructions, encode, print.\<close>

definition main :: "string \<Rightarrow> failure + string list" where
  "main input =
     and_then (main_loop init_state (to_upper (c_str input)))
       (\<lambda>st. and_then (encode_loop (instructions st) (labels st) (replicate ROM_SIZE 0))
          (\<lambda>rom_data. Inr (output_lines rom_data)))"

section \<open>Notions the properties are stated with\<close>



text \<open>
  What a line of the output is compared with. \<open>hex_value\<close> reads an uppercase
  hexadecimal digit by its character code (\<^verbatim>\<open>0\<close> to \<^verbatim>\<open>9\<close> are 48 to 57, \<^verbatim>\<open>A\<close> to \<^verbatim>\<open>F\<close> are
  65 to 70); \<open>nibbles\<close> are the four 4-bit digits of a 16-bit value, most significant
  first. Neither uses the digit table of the output routine.
\<close>

definition hex_value :: "char \<Rightarrow> nat" where
  "hex_value c = (if (of_char c :: nat) < 58 then of_char c - 48 else of_char c - 55)"

definition nibbles :: "nat \<Rightarrow> nat list" where
  "nibbles n = [n div 4096 mod 16, n div 256 mod 16, n div 16 mod 16, n mod 16]"

text \<open>\<^verbatim>\<open>strip_comments\<close> of \<^verbatim>\<open>src/assembler_apr7.cpp\<close>, the line-by-line assembler: every
  character from the first \<^verbatim>\<open>;\<close> on is overwritten with NUL, so the line, read as a C
  string, ends in front of it. \<^verbatim>\<open>src/assembler.cpp\<close> does not call it.\<close>

fun strip_comments :: "string \<Rightarrow> string" where
  "strip_comments [] = []"
| "strip_comments (c # cs) = (if c = CHR '';'' then [] else c # strip_comments cs)"

section \<open>Numeric literals and their values\<close>

text \<open>
  The notions the properties of \<^verbatim>\<open>parse_num\<close> are stated with. A literal is an optional
  sign, \<^verbatim>\<open>0X\<close> for base 16 or \<^verbatim>\<open>0B\<close> for base 2, and digits; \<open>literal_value\<close> is the
  positional value of the digits, most significant first; \<open>literal_int\<close> applies the
  sign. \<open>digit_ok\<close> is the test the validation loop applies to one character.
  \<open>sign_extend\<close> reads the \<open>bits\<close> low bits of a word as a two's-complement number.
\<close>

definition digit_ok :: "nat \<Rightarrow> char \<Rightarrow> bool" where
  "digit_ok base c =
     (if base = 10 then in_range CHR ''0'' CHR ''9'' c
      else if base = 16 then in_range CHR ''0'' CHR ''9'' c \<or> in_range CHR ''A'' CHR ''F'' c
      else if base = 2 then (c = CHR ''0'' \<or> c = CHR ''1'')
      else True)"

definition digit_of :: "char \<Rightarrow> nat" where
  "digit_of c = (case digit_value c of None \<Rightarrow> 0 | Some d \<Rightarrow> d)"

fun literal_value :: "nat \<Rightarrow> string \<Rightarrow> nat" where
  "literal_value base [] = 0"
| "literal_value base (c # cs) = digit_of c * base ^ length cs + literal_value base cs"

definition base_prefix :: "nat \<Rightarrow> string" where
  "base_prefix base = (if base = 16 then ''0X'' else if base = 2 then ''0B'' else [])"

definition literal :: "string \<Rightarrow> nat \<Rightarrow> string \<Rightarrow> string" where
  "literal sg base ds = sg @ base_prefix base @ ds"

definition literal_int :: "string \<Rightarrow> nat \<Rightarrow> string \<Rightarrow> int" where
  "literal_int sg base ds =
     (if sg = ''-'' then - int (literal_value base ds) else int (literal_value base ds))"

definition sign_extend :: "nat \<Rightarrow> 32 word \<Rightarrow> int" where
  "sign_extend bits r = (if 2 ^ (bits - 1) \<le> uint r then uint r - 2 ^ bits else uint r)"

text \<open>The part of \<^verbatim>\<open>parse_num\<close> behind the sign, by itself (\<open>parse_num_core_eq\<close> below
  relates the two).\<close>

definition parse_num_core :: "bool \<Rightarrow> string \<Rightarrow> nat \<Rightarrow> bool \<Rightarrow> failure + (32 word \<times> bool)" where
  "parse_num_core negative s1 bits has_success =
     (let is_hex = (2 \<le> length s1 \<and> s1 ! 1 = CHR ''X'');
          is_bin = (2 \<le> length s1 \<and> s1 ! 1 \<noteq> CHR ''X'' \<and> s1 ! 1 = CHR ''B'');
          base = (if is_hex then 16 else if is_bin then 2 else 10);
          s2 = (if is_hex \<or> is_bin then drop 2 s1 else s1);
          valid_number = valid_digits base s2
      in and_then (asm_assert (if is_hex \<or> is_bin then s1 ! 0 = CHR ''0'' else True) MalformedConstant)
         (\<lambda>_. and_then (asm_assert (if has_success then True else valid_number) MalformedConstant)
         (\<lambda>_. let r0 = (ucast (strtoul (c_str s2) base) :: 32 word);
                  result = (if negative then - r0 else r0)
              in and_then (asm_assert (range_ok result bits) OperandOutOfRange)
                 (\<lambda>_. Inr (mask_bits result bits, valid_number)))))"

section \<open>Evaluation on concrete programs\<close>

lemma MAX_INSTR_eq: "MAX_INSTR = 512"
  by (simp add: MAX_INSTR_def ROM_SIZE_def)

lemma ROM_SIZE_gt: "Suc 0 < ROM_SIZE" "2 < ROM_SIZE" "0 < ROM_SIZE"
  by (simp_all add: ROM_SIZE_def)

lemmas lex_eval = get_word_def skip_word_def is_word_char_def in_range_def is_comment_def is_label_def
  lookup_op_def OP_def mk_op_def

lemmas num_eval = parse_num_def and_then_def asm_assert_def line_num_def in_range_def strtoul_def
  c_str_def is_space_def digit_value_def ULONG_MAX_def range_ok_def high_bits_def mask_bits_def Let_def

lemmas enc_eval = parse_instruction_def parse_constant_def parse_reg_def or_in_def displacement_def

lemmas drv_eval = main_loop.simps arg_loop.simps init_state_def MAX_INSTR_eq MAX_LABELS_def

lemmas main_eval = main_def to_upper_def to_upper_char_def c_str_def in_range_def and_then_def

lemmas lit_eval = literal_def literal_int_def base_prefix_def digit_of_def digit_value_def in_range_def

section \<open>The lexer and comments\<close>

lemma get_word_never_comment: "\<not> is_comment (fst (get_word buf))"
proof (cases "skip_blank buf")
  case Nil
  then show ?thesis by (simp add: get_word_def is_comment_def skip_word_def)
next
  case (Cons c cs)
  then have "is_word_char c \<or> c = NL" by (rule skip_blank_start)
  then have "c \<noteq> CHR '';''" by (auto simp: is_word_char_def in_range_def)
  then show ?thesis using Cons
    by (cases "length (c # cs) - length (skip_word (c # cs))")
       (simp_all add: get_word_def is_comment_def Let_def)
qed

lemma strip_comments_no_semicolon: "CHR '';'' \<notin> set (strip_comments line)"
  by (induction line) auto

text \<open>
  C1. Claim: the region from a \<^verbatim>\<open>;\<close> to the next newline produces no tokens; no character
  of a comment is classified as a mnemonic, label, directive or operand.
  In \<^verbatim>\<open>src/assembler.cpp\<close> the claim fails: \<^verbatim>\<open>skip_blank\<close> skips \<^verbatim>\<open>;\<close> like a blank, no
  word starts with it (\<open>get_word_never_comment\<close>), and the text behind it is assembled.
  The program whose only line is the comment \<^verbatim>\<open>; ADD R1 R2 R3\<close> yields the instruction
  \<^verbatim>\<open>ADD R1 R2 R3\<close> at address 0 and the ROM bytes \<^verbatim>\<open>02 53\<close>.
\<close>

theorem comment_text_is_assembled:
  "main_loop init_state ''; ADD R1 R2 R3\<newline>'' =
     Inr \<lparr>instructions = [\<lparr>instr_addr = 0, instr_op = ''ADD'', instr_args = [''R1'', ''R2'', ''R3'']\<rparr>],
          labels = [], in_comment = False, next_addr = 2\<rparr>
   \<and> main ''; ADD R1 R2 R3\<newline>'' =
       Inr (output_lines ((replicate ROM_SIZE 0)[0 := 0x02, 1 := 0x53]))"
proof -
  have up: "to_upper (c_str ''; ADD R1 R2 R3\<newline>'') = ''; ADD R1 R2 R3\<newline>''"
    by (simp add: main_eval)
  have p1: "main_loop init_state ''; ADD R1 R2 R3\<newline>'' =
     Inr \<lparr>instructions = [\<lparr>instr_addr = 0, instr_op = ''ADD'', instr_args = [''R1'', ''R2'', ''R3'']\<rparr>],
          labels = [], in_comment = False, next_addr = 2\<rparr>"
    by (simp add: lex_eval drv_eval)
  have p2: "parse_instruction ''ADD'' [''R1'', ''R2'', ''R3''] [] 0 = Inr 0x0253"
    by (simp add: enc_eval num_eval lex_eval)
  have p3: "main ''; ADD R1 R2 R3\<newline>'' =
       Inr (output_lines ((replicate ROM_SIZE 0)[0 := 0x02, 1 := 0x53]))"
    unfolding main_def up p1 by (simp add: p2 and_then_def ROM_SIZE_gt)
  from p1 p3 show ?thesis by simp
qed

section \<open>Constant operands\<close>

text \<open>
  C2. Claim: for a B1 operand that is not a numeric literal the failed numeric parse is
  never fatal by itself; the token is looked up in the symbol table.
  The code departs from it: \<^verbatim>\<open>parse_num\<close> asserts the \<^verbatim>\<open>0X\<close>/\<^verbatim>\<open>0B\<close> prefix before it reports
  \<^verbatim>\<open>valid_number\<close>, so a label whose second character is \<^verbatim>\<open>X\<close> or \<^verbatim>\<open>B\<close> ends the run with
  "malformed constant" although the label is defined.
\<close>

theorem defined_label_is_malformed_constant:
  "parse_constant ''EXIT'' 0 [\<lparr>label_name = ''EXIT'', label_addr = 0\<rparr>] 9 = Inl (AsmError 0 MalformedConstant)
   \<and> main (''EXIT:\<newline>BRR EXIT\<newline>'') = Inl (AsmError 0 MalformedConstant)"
proof -
  have up: "to_upper (c_str ''EXIT:\<newline>BRR EXIT\<newline>'') = ''EXIT:\<newline>BRR EXIT\<newline>''"
    by (simp add: main_eval)
  have p0: "parse_constant ''EXIT'' 0 [\<lparr>label_name = ''EXIT'', label_addr = 0\<rparr>] 9
      = Inl (AsmError 0 MalformedConstant)"
    by (simp add: enc_eval num_eval)
  have p1: "main_loop init_state ''EXIT:\<newline>BRR EXIT\<newline>'' =
     Inr \<lparr>instructions = [\<lparr>instr_addr = 0, instr_op = ''BRR'', instr_args = [''EXIT'']\<rparr>],
          labels = [\<lparr>label_name = ''EXIT'', label_addr = 0\<rparr>], in_comment = False, next_addr = 2\<rparr>"
    by (simp add: lex_eval drv_eval)
  have p2: "parse_instruction ''BRR'' [''EXIT''] [\<lparr>label_name = ''EXIT'', label_addr = 0\<rparr>] 0
      = Inl (AsmError 0 MalformedConstant)"
    by (simp add: parse_instruction_def lex_eval p0 and_then_def asm_assert_def)
  have p3: "main (''EXIT:\<newline>BRR EXIT\<newline>'') = Inl (AsmError 0 MalformedConstant)"
    unfolding main_def up p1 by (simp add: p2 and_then_def)
  from p0 p3 show ?thesis by simp
qed

text \<open>
  C3. Claim: a B1 branch to a label encodes the signed 9-bit displacement, and a
  displacement that 9 bits cannot represent ends the run instead of being truncated.
  The code departs from it: the range test accepts every displacement from -512 to 511.
  A branch at address 600 to a label at address 0 has displacement -300; the run goes on
  and the low 9 bits of the word are \<^verbatim>\<open>0D4\<close>, which is +212.
\<close>

theorem displacement_is_truncated:
  "main_loop init_state ''L:\<newline>ORG 600\<newline>BRR L\<newline>'' =
     Inr \<lparr>instructions = [\<lparr>instr_addr = 600, instr_op = ''BRR'', instr_args = [''L'']\<rparr>],
          labels = [\<lparr>label_name = ''L'', label_addr = 0\<rparr>], in_comment = False, next_addr = 602\<rparr>
   \<and> sint (displacement 0 600) = - 300
   \<and> parse_instruction ''BRR'' [''L''] [\<lparr>label_name = ''L'', label_addr = 0\<rparr>] 600 = Inr 0x80D4"
proof -
  have pn: "parse_num ''600'' 16 False = Inr (600, True)"
    by (simp add: num_eval)
  have p1: "main_loop init_state ''L:\<newline>ORG 600\<newline>BRR L\<newline>'' =
     Inr \<lparr>instructions = [\<lparr>instr_addr = 600, instr_op = ''BRR'', instr_args = [''L'']\<rparr>],
          labels = [\<lparr>label_name = ''L'', label_addr = 0\<rparr>], in_comment = False, next_addr = 602\<rparr>"
    by (simp add: lex_eval drv_eval pn)
  have p2: "sint (displacement 0 600) = - 300"
    by (simp add: displacement_def)
  have p3: "parse_instruction ''BRR'' [''L''] [\<lparr>label_name = ''L'', label_addr = 0\<rparr>] 600 = Inr 0x80D4"
    by (simp add: enc_eval num_eval lex_eval)
  from p1 p2 p3 show ?thesis by simp
qed

section \<open>Register operands\<close>

text \<open>
  C5. Claim: a register operand is accepted only if it is \<^verbatim>\<open>R\<close> followed by one decimal
  digit; a second character that is not a digit is a fatal "not a valid register".
  The code departs from it: \<^verbatim>\<open>parse_reg\<close> tests the length and the \<^verbatim>\<open>R\<close> and never the
  second character. \<^verbatim>\<open>RA\<close> is register 17, and \<^verbatim>\<open>ADD RA R1 R2\<close> is encoded, the 17
  spilling into the opcode bits.
\<close>

theorem non_digit_register_is_accepted:
  "parse_reg ''RA'' = Inr 17
   \<and> parse_instruction ''ADD'' [''RA'', ''R1'', ''R2''] [] 0 = Inr 0x064A"
proof -
  have p1: "parse_reg ''RA'' = Inr 17"
    by (simp add: enc_eval num_eval)
  have p2: "parse_instruction ''ADD'' [''RA'', ''R1'', ''R2''] [] 0 = Inr 0x064A"
    by (simp add: enc_eval num_eval lex_eval)
  from p1 p2 show ?thesis by simp
qed

section \<open>Error reports\<close>

text \<open>
  C9. Claim: every assembly error is reported with the 1-based number of the offending
  source line, and the run ends there.
  The run does end at the first error, but \<^verbatim>\<open>src/assembler.cpp\<close> never assigns
  \<^verbatim>\<open>line_num\<close>: every report says line 0. The two-operand \<^verbatim>\<open>ADD\<close> on line 2 is reported
  as \<^verbatim>\<open>Line 0: too many args\<close>.
\<close>

theorem error_reports_line_zero:
  "asm_assert False err_msg = Inl (AsmError 0 err_msg)
   \<and> main ''NOP\<newline>ADD R1 R2\<newline>'' = Inl (AsmError 0 OperandCountMismatch)"
proof -
  have up: "to_upper (c_str ''NOP\<newline>ADD R1 R2\<newline>'') = ''NOP\<newline>ADD R1 R2\<newline>''"
    by (simp add: main_eval)
  have p1: "main_loop init_state ''NOP\<newline>ADD R1 R2\<newline>'' =
     Inr \<lparr>instructions = [\<lparr>instr_addr = 0, instr_op = ''NOP'', instr_args = []\<rparr>,
                           \<lparr>instr_addr = 2, instr_op = ''ADD'', instr_args = [''R1'', ''R2'']\<rparr>],
          labels = [], in_comment = False, next_addr = 4\<rparr>"
    by (simp add: lex_eval drv_eval)
  have p2: "parse_instruction ''NOP'' [] [] 0 = Inr 0"
    by (simp add: enc_eval num_eval lex_eval)
  have p3: "parse_instruction ''ADD'' [''R1'', ''R2''] [] 2 = Inl (AsmError 0 OperandCountMismatch)"
    by (simp add: enc_eval num_eval lex_eval)
  have p4: "main ''NOP\<newline>ADD R1 R2\<newline>'' = Inl (AsmError 0 OperandCountMismatch)"
    unfolding main_def up p1 by (simp add: p2 p3 and_then_def ROM_SIZE_gt)
  show ?thesis using p4 by (simp add: asm_assert_def line_num_def)
qed

section \<open>The range test and numeric literals\<close>

lemma high_bits_eq: "high_bits n = NOT (mask n)"
proof -
  have "(0xffffffff :: 32 word) = - 1" by simp
  then show ?thesis unfolding high_bits_def by (simp only: push_bit_minus_one_eq_not_mask)
qed

lemma and_not_mask_zero: "(x AND NOT (mask n) = 0) = (take_bit n x = x)" for x :: "32 word"
  by (auto simp add: bit_eq_iff bit_simps)

lemma take_bit_self_uint: "(take_bit n x = x) = (uint x < 2 ^ n)" for x :: "32 word"
  by (metis take_bit_int_eq_self take_bit_int_less_exp uint_range_size
    unsigned_take_bit_eq word_of_int_uint)

lemma and_not_mask_all: "(x AND NOT (mask n) = NOT (mask n)) = (take_bit n (NOT x) = NOT x)" for x :: "32 word"
  by (auto simp add: bit_eq_iff bit_simps)

lemma uint_not: "uint (NOT x) = 2 ^ 32 - 1 - uint x" for x :: "32 word"
proof -
  have "NOT x = - 1 - x" by (simp add: not_eq_complement)
  then have "uint (NOT x) = (uint (- 1 :: 32 word) - uint x) mod 2 ^ 32"
    by (simp add: uint_word_ariths)
  also have "\<dots> = (2 ^ 32 - 1 - uint x) mod 2 ^ 32"
    by (simp add: unsigned_minus_1_eq_mask mask_eq_exp_minus_1)
  also have "\<dots> = 2 ^ 32 - 1 - uint x"
  proof (rule mod_pos_pos_trivial)
    have "uint x < 4294967296" using uint_lt2p [of x] by simp
    then show "0 \<le> 2 ^ 32 - 1 - uint x" by simp
    have "- 1 < uint x" by (rule less_le_trans [where y = 0]) simp_all
    then show "2 ^ 32 - 1 - uint x < 2 ^ 32" by simp
  qed
  finally show ?thesis .
qed

lemma sint_cases: "sint x = (if uint x < 2 ^ 31 then uint x else uint x - 2 ^ 32)" for x :: "32 word"
proof -
  have s: "sint x = (uint x + 2147483648) mod 4294967296 - 2147483648"
    using int_word_sint [of "uint x", where 'a = 32] by simp
  have b: "0 \<le> uint x" "uint x < 4294967296" using uint_lt2p [of x] by simp_all
  show ?thesis
  proof (cases "uint x < 2147483648")
    case True
    then have "(uint x + 2147483648) mod 4294967296 = uint x + 2147483648"
      using b by (intro mod_pos_pos_trivial) linarith+
    with s True show ?thesis by simp
  next
    case False
    have "(uint x + 2147483648) mod 4294967296 = (uint x + 2147483648 - 4294967296) mod 4294967296"
      by (metis minus_mod_self2)
    also have "\<dots> = uint x + 2147483648 - 4294967296"
      using b False by (intro mod_pos_pos_trivial) linarith+
    finally show ?thesis using s False by simp
  qed
qed

lemma range_ok_uint:
  "range_ok x n = (uint x < 2 ^ n \<or> 2 ^ 32 - 1 - uint x < 2 ^ n)"
  by (simp add: range_ok_def high_bits_eq and_not_mask_zero and_not_mask_all take_bit_self_uint uint_not)

lemma range_arith:
  fixes u p :: int
  assumes "0 \<le> u" "u < 4294967296" "0 < p" "p \<le> 2147483648"
  shows "(u < p \<or> 4294967295 - u < p) =
         (- p \<le> (if u < 2147483648 then u else u - 4294967296)
          \<and> (if u < 2147483648 then u else u - 4294967296) < p)"
  using assms by auto

lemma range_ok_sint:
  assumes "n < 32"
  shows "range_ok x n = (- (2 ^ n) \<le> sint x \<and> sint x < 2 ^ n)"
proof -
  have "(2::int) ^ n \<le> 2 ^ 31" using assms by (intro power_increasing) simp_all
  then have p: "(2::int) ^ n \<le> 2147483648" by simp
  have u: "uint x < 4294967296" using uint_lt2p [of x] by simp
  have "range_ok x n = (uint x < 2 ^ n \<or> 4294967295 - uint x < 2 ^ n)"
    by (simp add: range_ok_uint)
  also have "\<dots> = (- (2 ^ n) \<le> (if uint x < 2147483648 then uint x else uint x - 4294967296)
          \<and> (if uint x < 2147483648 then uint x else uint x - 4294967296) < 2 ^ n)"
    by (rule range_arith [OF uint_ge_0 u _ p]) simp
  also have "\<dots> = (- (2 ^ n) \<le> sint x \<and> sint x < 2 ^ n)"
    by (simp add: sint_cases)
  finally show ?thesis .
qed

lemma mask_bits_eq: "mask_bits x n = take_bit n x"
  by (simp add: mask_bits_def high_bits_eq take_bit_eq_mask)

lemma sint_word_of_int:
  assumes "- (2 ^ 31) \<le> v" "v < 2 ^ 31"
  shows "sint (word_of_int v :: 32 word) = v"
  using assms by (simp add: sint_sbintrunc' signed_take_bit_int_eq_self)

lemma uint_take_bit_of_int:
  assumes "n \<le> 32"
  shows "uint (take_bit n (word_of_int v :: 32 word)) = v mod 2 ^ n"
proof -
  have "uint (take_bit n (word_of_int v :: 32 word)) = take_bit n (take_bit 32 v)"
    by (simp add: unsigned_take_bit_eq uint_word_of_int_eq)
  also have "\<dots> = take_bit n v" using assms by (simp add: min_absorb1)
  finally show ?thesis by (simp add: take_bit_eq_mod)
qed

lemma and_not_mask_zero_bits:
  "(x AND NOT (mask n) = 0) = (\<forall>i. n \<le> i \<and> i < 32 \<longrightarrow> \<not> bit x i)" for x :: "32 word"
proof -
  have "(x AND NOT (mask n) = 0) = (\<forall>i. \<not> (bit x i \<and> n \<le> i \<and> i < 32))"
    by (auto simp add: bit_eq_iff bit_simps not_less dest: bit_imp_le_length)
  then show ?thesis by blast
qed

lemma and_not_mask_all_bits:
  "(x AND NOT (mask n) = NOT (mask n)) = (\<forall>i. n \<le> i \<and> i < 32 \<longrightarrow> bit x i)" for x :: "32 word"
proof -
  have "(x AND NOT (mask n) = NOT (mask n)) = (\<forall>i. \<not> (\<not> bit x i \<and> n \<le> i \<and> i < 32))"
    by (auto simp add: bit_eq_iff bit_simps not_less dest: bit_imp_le_length)
  then show ?thesis by blast
qed

lemma range_ok_bits:
  assumes "n < 32"
  shows "range_ok x n = (\<forall>i. n \<le> i \<and> i < 32 \<longrightarrow> bit x i = bit x 31)"
proof -
  have "range_ok x n =
      ((\<forall>i. n \<le> i \<and> i < 32 \<longrightarrow> \<not> bit x i) \<or> (\<forall>i. n \<le> i \<and> i < 32 \<longrightarrow> bit x i))"
    by (simp add: range_ok_def high_bits_eq and_not_mask_zero_bits and_not_mask_all_bits)
  also have "\<dots> = (\<forall>i. n \<le> i \<and> i < 32 \<longrightarrow> bit x i = bit x 31)"
  proof -
    have r: "n \<le> 31 \<and> (31::nat) < 32" using assms by simp
    show ?thesis
    proof
      assume "(\<forall>i. n \<le> i \<and> i < 32 \<longrightarrow> \<not> bit x i) \<or> (\<forall>i. n \<le> i \<and> i < 32 \<longrightarrow> bit x i)"
      with r show "\<forall>i. n \<le> i \<and> i < 32 \<longrightarrow> bit x i = bit x 31" by blast
    next
      assume "\<forall>i. n \<le> i \<and> i < 32 \<longrightarrow> bit x i = bit x 31"
      then show "(\<forall>i. n \<le> i \<and> i < 32 \<longrightarrow> \<not> bit x i) \<or> (\<forall>i. n \<le> i \<and> i < 32 \<longrightarrow> bit x i)"
        by (cases "bit x 31") blast+
    qed
  qed
  finally show ?thesis .
qed

lemma valid_digits_iff: "valid_digits base ds = list_all (digit_ok base) ds"
  by (induction ds) (simp_all add: digit_ok_def Let_def)

lemma digit_ok_value:
  assumes "digit_ok base c" "base = 2 \<or> base = 10 \<or> base = 16"
  shows "\<exists>d. digit_value c = Some d \<and> d < base \<and> digit_of c = d"
  using assms by (auto simp: digit_ok_def digit_value_def digit_of_def in_range_def split: if_splits)

lemma digit_ok_plain:
  assumes "digit_ok base c" "base = 2 \<or> base = 10 \<or> base = 16"
  shows "c \<noteq> NUL \<and> \<not> is_space c \<and> c \<noteq> CHR ''+'' \<and> c \<noteq> CHR ''-''
         \<and> c \<noteq> CHR ''X'' \<and> c \<noteq> CHR ''x'' \<and> (base = 10 \<longrightarrow> c \<noteq> CHR ''B'')"
  using assms by (auto simp: digit_ok_def is_space_def in_range_def split: if_splits)

lemma strtoul_digits_value:
  assumes "list_all (digit_ok base) ds" "base = 2 \<or> base = 10 \<or> base = 16"
  shows "strtoul_digits base acc ds = acc * base ^ length ds + literal_value base ds"
  using assms(1)
proof (induction ds arbitrary: acc)
  case Nil
  then show ?case by simp
next
  case (Cons c cs)
  then obtain d where d: "digit_value c = Some d" "d < base" "digit_of c = d"
    using digit_ok_value [of base c] assms(2) by auto
  have "strtoul_digits base acc (c # cs) = strtoul_digits base (acc * base + d) cs"
    using d by simp
  also have "\<dots> = (acc * base + d) * base ^ length cs + literal_value base cs"
    using Cons by simp
  finally show ?case using d by (simp add: algebra_simps)
qed

lemma strtoul_valid:
  assumes "list_all (digit_ok base) ds" "base = 2 \<or> base = 10 \<or> base = 16"
    and "literal_value base ds \<le> ULONG_MAX"
  shows "strtoul (c_str ds) base = word_of_nat (literal_value base ds)"
proof -
  have plain: "\<forall>c \<in> set ds. c \<noteq> NUL \<and> \<not> is_space c \<and> c \<noteq> CHR ''+'' \<and> c \<noteq> CHR ''-''
         \<and> c \<noteq> CHR ''X'' \<and> c \<noteq> CHR ''x''"
    using assms(1,2) digit_ok_plain by (auto simp: list_all_iff)
  have c: "c_str ds = ds" using plain by (simp add: c_str_def takeWhile_eq_all_conv)
  have sp: "dropWhile is_space ds = ds" using plain by (cases ds) auto
  have neg: "(case ds of [] \<Rightarrow> False | c # _ \<Rightarrow> c = CHR ''-'') = False" using plain by (cases ds) auto
  have s2: "(case ds of [] \<Rightarrow> [] | c # cs \<Rightarrow> if c = CHR ''-'' \<or> c = CHR ''+'' then cs else ds) = ds"
    using plain by (cases ds) auto
  have px: "\<not> (2 \<le> length ds \<and> ds ! 0 = CHR ''0'' \<and> (ds ! 1 = CHR ''x'' \<or> ds ! 1 = CHR ''X''))"
    using plain by (metis Suc_1 Suc_le_lessD nth_mem one_add_one plus_1_eq_Suc)
  have v: "strtoul_digits base 0 ds = literal_value base ds"
    using strtoul_digits_value [OF assms(1,2), of 0] by simp
  have s3: "(if base = 16 \<and> 2 \<le> length ds \<and> ds ! 0 = CHR ''0''
                 \<and> (ds ! 1 = CHR ''x'' \<or> ds ! 1 = CHR ''X'')
              then drop 2 ds else ds) = ds"
    using px by (simp only: simp_thms if_False)
  show ?thesis
    unfolding strtoul_def Let_def c sp neg s2 s3 v using assms(3) by simp
qed

lemma parse_num_core_eq:
  "parse_num num_str bits has_success =
     (let c0 = (case num_str of [] \<Rightarrow> NUL | c # _ \<Rightarrow> c)
      in parse_num_core (c0 = CHR ''-'')
           (if c0 = CHR ''+'' \<or> c0 = CHR ''-'' then tl num_str else num_str) bits has_success)"
  by (simp add: parse_num_def parse_num_core_def Let_def)

lemma parse_num_signed:
  assumes "sg = [] \<or> sg = ''+'' \<or> sg = ''-''"
    and "body = [] \<or> (hd body \<noteq> CHR ''+'' \<and> hd body \<noteq> CHR ''-'')"
  shows "parse_num (sg @ body) bits has_success = parse_num_core (sg = ''-'') body bits has_success"
  using assms by (cases body) (auto simp: parse_num_core_eq)

lemma ucast_of_nat_small:
  assumes "m < 2 ^ 31"
  shows "(ucast (word_of_nat m :: 64 word) :: 32 word) = word_of_nat m"
proof -
  have "m < 2 ^ 64" using assms by (rule less_trans) simp
  then have "take_bit 64 m = m" by (rule take_bit_nat_eq_self)
  then show ?thesis by (simp add: unsigned_of_nat)
qed

lemma take_bit_word_of_int_mod:
  assumes "n < 32"
  shows "take_bit n (word_of_int v :: 32 word) = word_of_int (v mod 2 ^ n)"
  by (metis take_bit_eq_mod take_bit_of_int)

lemma core_result:
  assumes "- (2 ^ 31) < v" "v < 2 ^ 31" "bits < 32"
  shows "and_then (asm_assert (range_ok (word_of_int v) bits) OperandOutOfRange)
           (\<lambda>_. Inr (mask_bits (word_of_int v) bits, True)) =
         (if - (2 ^ bits) \<le> v \<and> v < 2 ^ bits
          then Inr (word_of_int (v mod 2 ^ bits), True)
          else Inl (AsmError line_num OperandOutOfRange))"
proof -
  have "sint (word_of_int v :: 32 word) = v"
    using assms by (intro sint_word_of_int) simp_all
  then have "range_ok (word_of_int v) bits = (- (2 ^ bits) \<le> v \<and> v < 2 ^ bits)"
    using range_ok_sint [OF assms(3), of "word_of_int v"] by simp
  then show ?thesis
    by (simp add: and_then_def asm_assert_def mask_bits_eq take_bit_word_of_int_mod [OF assms(3)])
qed

lemma parse_num_core_literal:
  assumes base: "base = 2 \<or> base = 10 \<or> base = 16"
    and ds: "valid_digits base ds"
    and small: "literal_value base ds < 2 ^ 31"
    and bits: "bits < 32"
  shows "parse_num_core negative (base_prefix base @ ds) bits has_success =
     (if - (2 ^ bits) \<le> (if negative then - int (literal_value base ds) else int (literal_value base ds))
         \<and> (if negative then - int (literal_value base ds) else int (literal_value base ds)) < 2 ^ bits
      then Inr (word_of_int ((if negative then - int (literal_value base ds) else int (literal_value base ds)) mod 2 ^ bits), True)
      else Inl (AsmError line_num OperandOutOfRange))"
proof -
  define m where "m = literal_value base ds"
  define v where "v = (if negative then - int m else int m)"
  have la: "list_all (digit_ok base) ds" using ds by (simp add: valid_digits_iff)
  have vb: "- (2 ^ 31) < v" "v < 2 ^ 31" using small by (auto simp: v_def m_def)
  have "m \<le> ULONG_MAX" using small by (simp add: m_def ULONG_MAX_def)
  then have st: "strtoul (c_str ds) base = word_of_nat m"
    using strtoul_valid [OF la base] by (simp add: m_def)
  have r0: "(ucast (strtoul (c_str ds) base) :: 32 word) = word_of_nat m"
    unfolding st using small by (intro ucast_of_nat_small) (simp add: m_def)
  have res: "(word_of_int v :: 32 word) = (if negative then - word_of_nat m else word_of_nat m)"
    by (simp add: v_def)
  have dec: "ds ! 1 \<noteq> CHR ''X'' \<and> ds ! 1 \<noteq> CHR ''B''" if "base = 10" "2 \<le> length ds"
  proof -
    have "ds ! 1 \<in> set ds" using that(2) by (intro nth_mem) simp
    then have "digit_ok 10 (ds ! 1)" using la that(1) by (simp add: list_all_iff)
    then show ?thesis by (auto simp: digit_ok_def in_range_def)
  qed
  have core: "parse_num_core negative (base_prefix base @ ds) bits has_success =
      and_then (asm_assert (range_ok (word_of_int v) bits) OperandOutOfRange)
           (\<lambda>_. Inr (mask_bits (word_of_int v) bits, True))"
    using base
  proof (elim disjE)
    assume b: "base = 2"
    show ?thesis
      using ds r0 by (simp add: parse_num_core_def base_prefix_def b Let_def and_then_def asm_assert_def res)
  next
    assume b: "base = 10"
    show ?thesis
    proof (cases "2 \<le> length ds")
      case True
      with ds r0 dec [OF b True] show ?thesis
        by (simp add: parse_num_core_def base_prefix_def b Let_def and_then_def asm_assert_def res)
    next
      case False
      with ds r0 show ?thesis
        by (simp add: parse_num_core_def base_prefix_def b Let_def and_then_def asm_assert_def res)
    qed
  next
    assume b: "base = 16"
    show ?thesis
      using ds r0 by (simp add: parse_num_core_def base_prefix_def b Let_def and_then_def asm_assert_def res)
  qed
  show ?thesis
    unfolding core core_result [OF vb bits] by (simp add: v_def m_def)
qed

lemma parse_num_literal:
  assumes sg: "sg = [] \<or> sg = ''+'' \<or> sg = ''-''"
    and base: "base = 2 \<or> base = 10 \<or> base = 16"
    and ds: "valid_digits base ds"
    and small: "literal_value base ds < 2 ^ 31"
    and bits: "bits < 32"
  shows "parse_num (literal sg base ds) bits has_success =
     (if - (2 ^ bits) \<le> literal_int sg base ds \<and> literal_int sg base ds < 2 ^ bits
      then Inr (word_of_int (literal_int sg base ds mod 2 ^ bits), True)
      else Inl (AsmError line_num OperandOutOfRange))"
proof -
  have la: "list_all (digit_ok base) ds" using ds by (simp add: valid_digits_iff)
  have hd: "base_prefix base @ ds = [] \<or>
      (hd (base_prefix base @ ds) \<noteq> CHR ''+'' \<and> hd (base_prefix base @ ds) \<noteq> CHR ''-'')"
    using la base digit_ok_plain [of base "hd ds"]
    by (cases ds) (auto simp: base_prefix_def)
  show ?thesis
    unfolding literal_def parse_num_signed [OF sg hd] parse_num_core_literal [OF base ds small bits]
    by (simp add: literal_int_def)
qed

text \<open>
  The literal \<^verbatim>\<open>128\<close> is \<open>2 ^ (8 - 1)\<close>, and \<^verbatim>\<open>parse_num\<close> accepts it at 8 bits: the
  signed boundary of C4 is not where the code rejects.
\<close>

theorem parse_num_accepts_unsigned_range_counterexample:
  "parse_num ''128'' 8 False = Inr (128, True) \<and> (128 :: int) = 2 ^ (8 - 1)"
  by (simp add: num_eval)

text \<open>
  C4, amended. For every width below 32 (the ISA uses 4, 6, 8, 9 and 16) and every valid
  literal of magnitude below \<open>2 ^ 31\<close> with value \<open>v\<close>: if \<open>- 2 ^ (bits - 1) \<le> v\<close>, then
  \<^verbatim>\<open>parse_num\<close> accepts \<open>v\<close> exactly when \<open>v < 2 ^ bits\<close>, returning its \<open>bits\<close> low bits, and
  otherwise ends the run with "argument needs too many bits"; so \<open>2 ^ (bits - 1) - 1\<close> and
  \<open>2 ^ (bits - 1)\<close> are both accepted and \<open>2 ^ bits\<close> is the first value rejected. Such a
  value is accepted exactly when its bits from \<open>bits\<close> upwards all equal the sign bit
  (bit 31) of the 32-bit result. Every \<open>v < - 2 ^ bits\<close> is rejected.
\<close>

theorem parse_num_range:
  assumes "sg = [] \<or> sg = ''+'' \<or> sg = ''-''"
    and "base = 2 \<or> base = 10 \<or> base = 16"
    and "valid_digits base ds"
    and "literal_value base ds < 2 ^ 31"
    and "bits < 32"
  shows "(- (2 ^ (bits - 1)) \<le> literal_int sg base ds \<longrightarrow>
            parse_num (literal sg base ds) bits has_success =
              (if literal_int sg base ds < 2 ^ bits
               then Inr (word_of_int (literal_int sg base ds mod 2 ^ bits), True)
               else Inl (AsmError line_num OperandOutOfRange))
          \<and> (literal_int sg base ds < 2 ^ bits) =
              (\<forall>i. bits \<le> i \<and> i < 32 \<longrightarrow>
                 bit (word_of_int (literal_int sg base ds) :: 32 word) i =
                 bit (word_of_int (literal_int sg base ds) :: 32 word) 31))
    \<and> (literal_int sg base ds < - (2 ^ bits) \<longrightarrow>
            parse_num (literal sg base ds) bits has_success = Inl (AsmError line_num OperandOutOfRange))"
proof -
  define v where "v = literal_int sg base ds"
  have "- (2 ^ 31) \<le> v" "v < 2 ^ 31"
    using assms(4) by (auto simp: v_def literal_int_def)
  then have "sint (word_of_int v :: 32 word) = v"
    by (rule sint_word_of_int)
  then have r: "(- (2 ^ bits) \<le> v \<and> v < 2 ^ bits) = range_ok (word_of_int v) bits"
    using range_ok_sint [OF assms(5), of "word_of_int v"] by simp
  have u: "range_ok (word_of_int v) bits =
      (\<forall>i. bits \<le> i \<and> i < 32 \<longrightarrow> bit (word_of_int v :: 32 word) i = bit (word_of_int v :: 32 word) 31)"
    by (rule range_ok_bits [OF assms(5)])
  have p: "parse_num (literal sg base ds) bits has_success =
     (if - (2 ^ bits) \<le> v \<and> v < 2 ^ bits
      then Inr (word_of_int (v mod 2 ^ bits), True)
      else Inl (AsmError line_num OperandOutOfRange))"
    unfolding v_def by (rule parse_num_literal [OF assms])
  have "(2::int) ^ (bits - 1) \<le> 2 ^ bits" by (intro power_increasing) simp_all
  then have low: "- (2 ^ bits) \<le> v" if "- (2 ^ (bits - 1)) \<le> v" using that by linarith
  have a: "parse_num (literal sg base ds) bits has_success =
      (if v < 2 ^ bits then Inr (word_of_int (v mod 2 ^ bits), True)
       else Inl (AsmError line_num OperandOutOfRange))"
    if "- (2 ^ (bits - 1)) \<le> v"
    using p low [OF that] by simp
  have b: "(v < 2 ^ bits) =
      (\<forall>i. bits \<le> i \<and> i < 32 \<longrightarrow> bit (word_of_int v :: 32 word) i = bit (word_of_int v :: 32 word) 31)"
    if "- (2 ^ (bits - 1)) \<le> v"
    using r u low [OF that] by simp
  have c: "parse_num (literal sg base ds) bits has_success = Inl (AsmError line_num OperandOutOfRange)"
    if "v < - (2 ^ bits)"
    using p that by simp
  from a b c show ?thesis unfolding v_def by blast
qed

theorem parse_num_range_witness:
  "parse_num ''127'' 8 False = Inr (127, True)
   \<and> parse_num ''0XFF'' 8 False = Inr (255, True)
   \<and> parse_num ''0X100'' 8 False = Inl (AsmError 0 OperandOutOfRange)
   \<and> parse_num ''-513'' 9 False = Inl (AsmError 0 OperandOutOfRange)"
proof -
  have a: "parse_num ''127'' 8 False = Inr (127, True)"
    using parse_num_range [of "[]" 10 "''127''" 8 False]
    by (simp add: lit_eval)
  have b: "parse_num ''0XFF'' 8 False = Inr (255, True)"
    using parse_num_range [of "[]" 16 "''FF''" 8 False]
    by (simp add: lit_eval)
  have c: "parse_num ''0X100'' 8 False = Inl (AsmError 0 OperandOutOfRange)"
    using parse_num_range [of "[]" 16 "''100''" 8 False]
    by (simp add: lit_eval line_num_def)
  have d: "parse_num ''-513'' 9 False = Inl (AsmError 0 OperandOutOfRange)"
    using parse_num_range [of "''-''" 10 "''513''" 9 False]
    by (simp add: lit_eval line_num_def)
  from a b c d show ?thesis by simp
qed

text \<open>
  C7. For every valid decimal, hexadecimal or binary literal whose value fits \<open>bits\<close>
  bits as a signed number, \<open>- 2 ^ (bits - 1) \<le> v < 2 ^ (bits - 1)\<close>, \<^verbatim>\<open>parse_num\<close> returns a
  masked result, and sign-extending that result from \<open>bits\<close> bits gives \<open>v\<close> back.
\<close>

theorem parse_num_round_trip:
  assumes "sg = [] \<or> sg = ''+'' \<or> sg = ''-''"
    and "base = 2 \<or> base = 10 \<or> base = 16"
    and "valid_digits base ds"
    and "0 < bits" and "bits < 32"
    and "- (2 ^ (bits - 1)) \<le> literal_int sg base ds"
    and "literal_int sg base ds < 2 ^ (bits - 1)"
  shows "\<exists>r. parse_num (literal sg base ds) bits has_success = Inr (r, True)
             \<and> sign_extend bits r = literal_int sg base ds"
proof -
  define v where "v = literal_int sg base ds"
  define p :: int where "p = 2 ^ (bits - 1)"
  have pw: "(2::int) ^ bits = 2 * p"
    using assms(4) by (cases bits) (simp_all add: p_def)
  have "(2::int) ^ (bits - 1) \<le> 2 ^ 30" using assms(5) by (intro power_increasing) simp_all
  then have p30: "p \<le> 1073741824" by (simp add: p_def)
  have p0: "0 < p" by (simp add: p_def)
  have vr: "- p \<le> v" "v < p" using assms(6,7) by (simp_all add: v_def p_def)
  have "int (literal_value base ds) < 2 ^ 31"
    using vr p30 by (auto simp: v_def literal_int_def split: if_splits)
  then have small: "literal_value base ds < 2 ^ 31" by (simp flip: of_nat_less_iff)
  have inr: "- (2 ^ bits) \<le> v \<and> v < 2 ^ bits" using vr p0 by (simp add: pw)
  have pn: "parse_num (literal sg base ds) bits has_success = Inr (word_of_int (v mod 2 ^ bits), True)"
    using parse_num_literal [OF assms(1,2,3) small assms(5), of has_success] inr by (simp add: v_def)
  have md: "v mod (2 * p) = (if 0 \<le> v then v else v + 2 * p)"
  proof (cases "0 \<le> v")
    case True
    then show ?thesis using vr p0 by (simp add: mod_pos_pos_trivial)
  next
    case False
    have "v mod (2 * p) = (v + 2 * p) mod (2 * p)" by simp
    also have "\<dots> = v + 2 * p" using False vr p0 by (intro mod_pos_pos_trivial) linarith+
    finally show ?thesis using False by simp
  qed
  have "uint (word_of_int (v mod (2 * p)) :: 32 word) = (v mod (2 * p)) mod 2 ^ 32"
    by (simp add: uint_word_of_int)
  also have "\<dots> = v mod (2 * p)"
    using vr p0 p30 md by (intro mod_pos_pos_trivial) (auto split: if_splits)
  finally have u: "uint (word_of_int (v mod 2 ^ bits) :: 32 word) = v mod (2 * p)" by (simp add: pw)
  have se: "sign_extend bits r = (if p \<le> uint r then uint r - 2 * p else uint r)" for r
    by (simp only: sign_extend_def pw flip: p_def)
  have "sign_extend bits (word_of_int (v mod 2 ^ bits)) = v"
    unfolding se u using md vr p0 by (auto split: if_splits)
  with pn show ?thesis by (auto simp: v_def)
qed

theorem parse_num_round_trip_witness:
  "\<exists>r. parse_num ''-3'' 4 False = Inr (r, True) \<and> sign_extend 4 r = - 3"
  using parse_num_round_trip [of "''-''" 10 "''3''" 4 False]
  by (simp add: lit_eval)

section \<open>Invariants of the driver loop\<close>

lemma eq_cstr_iff: "eq_cstr word rhs = (word = rhs)"
  by (induction word rhs rule: eq_cstr.induct) auto

lemma arg_loop_capacity:
  "arg_loop args word file_pos = Inr (args', file_pos') \<Longrightarrow> length args \<le> 3 \<Longrightarrow> length args' \<le> 3"
proof (induction args word file_pos rule: arg_loop.induct)
  case (1 args word file_pos)
  show ?case
  proof (cases "\<not> is_comment word \<and> \<not> eq_cstr word [NL]")
    case True
    obtain w p where gw: "get_word file_pos = (w, p)" by (cases "get_word file_pos")
    from True gw "1.prems" have lt: "length args < 3" and
      rec: "arg_loop (args @ [word]) w p = Inr (args', file_pos')"
      by (auto simp: arg_loop.simps [of args] split: if_splits)
    from "1.IH" [OF True lt gw [symmetric] rec] lt show ?thesis by simp
  next
    case False
    with "1.prems" show ?thesis by (auto simp: arg_loop.simps [of args] split: if_splits)
  qed
qed

lemma arg_loop_rest:
  assumes "arg_loop args word file_pos = Inr (args', file_pos')" "G file_pos"
    and step: "\<And>buf. G buf \<Longrightarrow> G (snd (get_word buf))"
  shows "G file_pos'"
  using assms(1,2)
proof (induction args word file_pos rule: arg_loop.induct)
  case (1 args word file_pos)
  show ?case
  proof (cases "\<not> is_comment word \<and> \<not> eq_cstr word [NL]")
    case True
    obtain w p where gw: "get_word file_pos = (w, p)" by (cases "get_word file_pos")
    from True gw "1.prems" have lt: "length args < 3" and
      rec: "arg_loop (args @ [word]) w p = Inr (args', file_pos')"
      by (auto simp: arg_loop.simps [of args] split: if_splits)
    have "G p" using step [OF "1.prems"(2)] gw by simp
    from "1.IH" [OF True lt gw [symmetric] rec this] show ?thesis .
  next
    case False
    with "1.prems" show ?thesis by (auto simp: arg_loop.simps [of args] split: if_splits)
  qed
qed

lemma main_loop_invariant:
  assumes run: "main_loop st buf = Inr st'"
    and P: "P st" and G: "G buf"
    and G_step: "\<And>b. G b \<Longrightarrow> G (snd (get_word b))"
    and P_flag: "\<And>s c. P s \<Longrightarrow> P (s\<lparr>in_comment := c\<rparr>)"
    and P_org: "\<And>s b v. P s \<Longrightarrow> G b \<Longrightarrow> b \<noteq> [] \<Longrightarrow> fst (get_word b) = ''ORG'' \<Longrightarrow> P (s\<lparr>next_addr := v\<rparr>)"
    and P_label: "\<And>s name. P s \<Longrightarrow> length (labels s) < MAX_LABELS \<Longrightarrow>
        P (s\<lparr>labels := labels s @ [\<lparr>label_name = name, label_addr = next_addr s\<rparr>]\<rparr>)"
    and P_instr: "\<And>s word args. P s \<Longrightarrow> length args \<le> 3 \<Longrightarrow> length (instructions s) < MAX_INSTR \<Longrightarrow>
        P (s\<lparr>instructions := instructions s @ [\<lparr>instr_addr = next_addr s, instr_op = word, instr_args = args\<rparr>],
             next_addr := next_addr s + 2\<rparr>)"
  shows "P st'"
  using run P G
proof (induction "length buf" arbitrary: st buf rule: less_induct)
  case less
  note IH = less.hyps and run = less.prems(1) and Pst = less.prems(2) and Gbuf = less.prems(3)
  show ?case
  proof (cases "buf = []")
    case True
    with run Pst show ?thesis by (simp add: main_loop.simps [of st])
  next
    case False
    obtain word pos1 where gw: "get_word buf = (word, pos1)" by (cases "get_word buf")
    have sh: "length pos1 < length buf" using get_word_shorter [OF False] gw by simp
    have G1: "G pos1" using G_step [OF Gbuf] gw by simp
    consider (leave) "in_comment st \<and> eq_cstr word [NL]"
      | (enter) "\<not> (in_comment st \<and> eq_cstr word [NL])" "is_comment word"
      | (org) "\<not> (in_comment st \<and> eq_cstr word [NL])" "\<not> is_comment word" "eq_cstr word ''ORG''"
      | (label) "\<not> (in_comment st \<and> eq_cstr word [NL])" "\<not> is_comment word" "\<not> eq_cstr word ''ORG''"
          "is_label word"
      | (other) "\<not> (in_comment st \<and> eq_cstr word [NL])" "\<not> is_comment word" "\<not> eq_cstr word ''ORG''"
          "\<not> is_label word"
      by blast
    then show ?thesis
    proof cases
      case leave
      with run False gw have "main_loop (st\<lparr>in_comment := False\<rparr>) pos1 = Inr st'"
        by (auto simp: main_loop.simps [of st buf] split: if_splits)
      from IH [OF sh this P_flag [OF Pst] G1] show ?thesis .
    next
      case enter
      with run False gw have "main_loop (st\<lparr>in_comment := True\<rparr>) pos1 = Inr st'"
        by (auto simp: main_loop.simps [of st buf] split: if_splits)
      from IH [OF sh this P_flag [OF Pst] G1] show ?thesis .
    next
      case org
      obtain word2 pos2 where gw2: "get_word pos1 = (word2, pos2)" by (cases "get_word pos1")
      have sh2: "length pos2 < length buf" using get_word_length [of pos1] gw2 sh by simp
      have G2: "G pos2" using G_step [OF G1] gw2 by simp
      from org run False gw gw2 obtain v ok where
        "parse_num word2 16 False = Inr (v, ok)" "main_loop (st\<lparr>next_addr := v\<rparr>) pos2 = Inr st'"
        by (auto simp: main_loop.simps [of st buf] split: sum.splits if_splits)
      moreover have "P (st\<lparr>next_addr := v\<rparr>)"
        using P_org [OF Pst Gbuf False] gw org(3) by (simp add: eq_cstr_iff)
      ultimately show ?thesis using IH [OF sh2 _ _ G2] by blast
    next
      case label
      with run False gw have lt: "length (labels st) < MAX_LABELS" and
        rec: "main_loop (st\<lparr>labels := labels st @ [\<lparr>label_name = butlast word, label_addr = next_addr st\<rparr>]\<rparr>) pos1 = Inr st'"
        by (auto simp: main_loop.simps [of st buf] split: sum.splits if_splits)
      from IH [OF sh rec P_label [OF Pst lt] G1] show ?thesis .
    next
      case other
      show ?thesis
      proof (cases "lookup_op word")
        case None
        with other run False gw have "main_loop st pos1 = Inr st'"
          by (auto simp: main_loop.simps [of st buf] split: if_splits)
        from IH [OF sh this Pst G1] show ?thesis .
      next
        case (Some op_idx)
        obtain word2 pos2 where gw2: "get_word pos1 = (word2, pos2)" by (cases "get_word pos1")
        have G2: "G pos2" using G_step [OF G1] gw2 by simp
        from other Some run False gw gw2 obtain args pos3 where
          al: "arg_loop [] word2 pos2 = Inr (args, pos3)" and
          lt: "length (instructions st) < MAX_INSTR" and
          rec: "main_loop (st\<lparr>instructions := instructions st @
                 [\<lparr>instr_addr = next_addr st, instr_op = word, instr_args = args\<rparr>],
                 next_addr := next_addr st + 2\<rparr>) pos3 = Inr st'"
          by (auto simp: main_loop.simps [of st buf] split: sum.splits if_splits)
        have sh3: "length pos3 < length buf"
          using arg_loop_length [OF al] get_word_length [of pos1] gw2 sh by simp
        have G3: "G pos3" using arg_loop_rest [OF al G2 G_step] .
        have "length args \<le> 3" using arg_loop_capacity [OF al] by simp
        from IH [OF sh3 rec P_instr [OF Pst this lt] G3] show ?thesis .
      qed
    qed
  qed
qed

lemma instr_args_bounded:
  assumes "main_loop st buf = Inr st'"
    and "\<forall>i \<in> set (instructions st). length (instr_args i) \<le> 3"
  shows "\<forall>i \<in> set (instructions st'). length (instr_args i) \<le> 3"
  by (rule main_loop_invariant [where P = "\<lambda>s. \<forall>i \<in> set (instructions s). length (instr_args i) \<le> 3"
        and G = "\<lambda>_. True", OF assms(1)]) (use assms(2) in auto)

text \<open>
  C10. Every instruction the driver records holds at most 3 operand tokens: the operand
  array has capacity 3. A recognized mnemonic followed by four operand tokens before the
  newline fails the assertion of \<^verbatim>\<open>push\<close>; the process aborts, which is not an
  \<^verbatim>\<open>asm_assert\<close> report ("too many args").
\<close>

theorem operand_capacity:
  "(main_loop init_state buf = Inr st \<longrightarrow> (\<forall>i \<in> set (instructions st). length (instr_args i) \<le> 3))
   \<and> main ''ADD R1 R2 R3 R4\<newline>'' = Inl AssertionFailed"
proof -
  have a: "main_loop init_state buf = Inr st \<longrightarrow> (\<forall>i \<in> set (instructions st). length (instr_args i) \<le> 3)"
    using instr_args_bounded [of init_state buf st] by (simp add: init_state_def)
  have up: "to_upper (c_str ''ADD R1 R2 R3 R4\<newline>'') = ''ADD R1 R2 R3 R4\<newline>''"
    by (simp add: main_eval)
  have "main_loop init_state ''ADD R1 R2 R3 R4\<newline>'' = Inl AssertionFailed"
    by (simp add: lex_eval drv_eval)
  then have b: "main ''ADD R1 R2 R3 R4\<newline>'' = Inl AssertionFailed"
    unfolding main_def up by (simp add: and_then_def)
  from a b show ?thesis by simp
qed

theorem operand_capacity_witness:
  "main_loop init_state ''ADD R1 R2 R3\<newline>'' =
     Inr \<lparr>instructions = [\<lparr>instr_addr = 0, instr_op = ''ADD'', instr_args = [''R1'', ''R2'', ''R3'']\<rparr>],
          labels = [], in_comment = False, next_addr = 2\<rparr>
   \<and> length (instr_args \<lparr>instr_addr = 0, instr_op = ''ADD'', instr_args = [''R1'', ''R2'', ''R3'']\<rparr>) \<le> 3"
proof -
  have p1: "main_loop init_state ''ADD R1 R2 R3\<newline>'' =
     Inr \<lparr>instructions = [\<lparr>instr_addr = 0, instr_op = ''ADD'', instr_args = [''R1'', ''R2'', ''R3'']\<rparr>],
          labels = [], in_comment = False, next_addr = 2\<rparr>"
    by (simp add: lex_eval drv_eval)
  from operand_capacity [of "''ADD R1 R2 R3\<newline>''"
      "\<lparr>instructions = [\<lparr>instr_addr = 0, instr_op = ''ADD'', instr_args = [''R1'', ''R2'', ''R3'']\<rparr>],
          labels = [], in_comment = False, next_addr = 2\<rparr>"] p1
  show ?thesis by simp
qed

section \<open>Addresses\<close>









section \<open>The ROM image and the output\<close>

lemma encode_loop_length:
  "encode_loop is lbls rom_data = Inr rom' \<Longrightarrow> length rom' = length rom_data"
proof (induction "is" arbitrary: rom_data)
  case Nil
  then show ?case by simp
next
  case (Cons i rest)
  then show ?case
    by (auto simp: and_then_def Let_def split: sum.splits if_splits)
qed

lemma encode_loop_untouched:
  "encode_loop is lbls rom_data = Inr rom' \<Longrightarrow>
   \<forall>i \<in> set is. unat (instr_addr i) \<noteq> j \<and> unat (instr_addr i) + 1 \<noteq> j \<Longrightarrow>
   rom' ! j = rom_data ! j"
proof (induction "is" arbitrary: rom_data)
  case Nil
  then show ?case by simp
next
  case (Cons i rest)
  obtain instr where pi: "parse_instruction (instr_op i) (instr_args i) lbls (instr_addr i) = Inr instr"
    using Cons.prems(1) by (cases "parse_instruction (instr_op i) (instr_args i) lbls (instr_addr i)")
      (simp_all add: and_then_def)
  with Cons.prems(1) have
    rec: "encode_loop rest lbls (rom_data[unat (instr_addr i) := ucast (drop_bit 8 instr AND 0xFF),
             unat (instr_addr i) + 1 := ucast (instr AND 0xFF)]) = Inr rom'"
    by (simp add: and_then_def Let_def split: if_splits)
  from Cons.IH [OF rec] Cons.prems(2) show ?case by simp
qed

lemma hex_digit_mem: "n < 16 \<Longrightarrow> hex_digit n \<in> set ''0123456789ABCDEF''"
  unfolding hex_digit_def by (rule nth_mem) simp

lemma fmt_02X_hex: "set (fmt_02X b) \<subseteq> set ''0123456789ABCDEF''"
proof -
  have "unat b < 256" using unsigned_less [of b] by simp
  then have "unat b div 16 < 16" by simp
  then have 1: "hex_digit (unat b div 16) \<in> set ''0123456789ABCDEF''" by (rule hex_digit_mem)
  have "unat b mod 16 < 16" by simp
  then have 2: "hex_digit (unat b mod 16) \<in> set ''0123456789ABCDEF''" by (rule hex_digit_mem)
  have 3: "set (fmt_02X b) = {hex_digit (unat b div 16), hex_digit (unat b mod 16)}"
    by (simp add: fmt_02X_def)
  show ?thesis unfolding 3 using 1 2 by (simp only: insert_subset empty_subsetI simp_thms)
qed

lemma nibble_3:
  fixes x y :: nat
  assumes "y < 256"
  shows "(256 * x + y) div 16 mod 16 = y div 16"
proof -
  have "256 * x + y = y + 16 * (16 * x)" by simp
  then have "(256 * x + y) div 16 = 16 * x + y div 16" by (simp only: div_mult_self2)
  moreover have "y div 16 < 16" using assms by simp
  ultimately show ?thesis by simp
qed

lemma nibble_4:
  fixes x y :: nat
  shows "(256 * x + y) mod 16 = y mod 16"
proof -
  have "256 * x + y = y + 16 * (16 * x)" by simp
  then show ?thesis by (simp only: mod_mult_self2)
qed

lemma below_16:
  assumes "n < (16::nat)"
  shows "n \<in> {0, 1, 2, 3, 4, 5, 6, 7, 8, 9, 10, 11, 12, 13, 14, 15}"
proof -
  have "{..<(16::nat)} = {0, 1, 2, 3, 4, 5, 6, 7, 8, 9, 10, 11, 12, 13, 14, 15}"
    by (simp add: lessThan_nat_numeral lessThan_Suc insert_commute)
  with assms show ?thesis by (metis lessThan_iff)
qed

lemma hex_digit_value:
  assumes "n < 16"
  shows "hex_value (hex_digit n) = n"
  using below_16 [OF assms] by (auto simp: hex_digit_def hex_value_def)

lemma fmt_pair_nibbles:
  "map hex_value (fmt_02X a @ fmt_02X b) = nibbles (256 * unat a + unat b)"
proof -
  have a: "unat a < 256" using unsigned_less [of a] by simp
  have b: "unat b < 256" using unsigned_less [of b] by simp
  have 1: "(256 * unat a + unat b) div 4096 mod 16 = unat a div 16" using a b by simp
  have 2: "(256 * unat a + unat b) div 256 mod 16 = unat a mod 16" using a b by simp
  have 3: "(256 * unat a + unat b) div 16 mod 16 = unat b div 16" using b by (rule nibble_3)
  have 4: "(256 * unat a + unat b) mod 16 = unat b mod 16" by (rule nibble_4)
  have ha: "unat a div 16 < 16" using a by simp
  have hb: "unat b div 16 < 16" using b by simp
  have v: "hex_value (hex_digit (unat a div 16)) = unat a div 16"
    "hex_value (hex_digit (unat a mod 16)) = unat a mod 16"
    "hex_value (hex_digit (unat b div 16)) = unat b div 16"
    "hex_value (hex_digit (unat b mod 16)) = unat b mod 16"
    using ha hb by (simp_all add: hex_digit_value)
  show ?thesis unfolding fmt_02X_def nibbles_def 1 2 3 4 by (simp add: v)
qed

lemma output_line_take:
  "take 4 (output_line rom_data i) = fmt_02X (rom_data ! i) @ fmt_02X (rom_data ! (i + 1))"
  by (simp add: output_line_def fmt_02X_def)

lemma output_lines_nth:
  assumes "k < ROM_SIZE div 2"
  shows "output_lines rom_data ! k = output_line rom_data (2 * k)"
  using assms by (simp add: output_lines_def)

lemma output_line_shape:
  "length (output_line rom_data i) = 5
   \<and> set (take 4 (output_line rom_data i)) \<subseteq> set ''0123456789ABCDEF''
   \<and> output_line rom_data i ! 4 = NL"
proof -
  have l: "length (fmt_02X b) = 2" for b by (simp add: fmt_02X_def)
  have "take 4 (output_line rom_data i) = fmt_02X (rom_data ! i) @ fmt_02X (rom_data ! (i + 1))"
    by (simp add: output_line_def l)
  then have "set (take 4 (output_line rom_data i)) \<subseteq> set ''0123456789ABCDEF''"
    using fmt_02X_hex [of "rom_data ! i"] fmt_02X_hex [of "rom_data ! (i + 1)"]
    by (simp only: set_append Un_subset_iff)
  moreover have "output_line rom_data i ! 4 = NL"
    by (simp add: output_line_def fmt_02X_def)
  moreover have "length (output_line rom_data i) = 5"
    by (simp add: output_line_def l)
  ultimately show ?thesis by simp
qed

lemma main_success:
  assumes "main input = Inr out"
  obtains st rom_data where
    "main_loop init_state (to_upper (c_str input)) = Inr st"
    "encode_loop (instructions st) (labels st) (replicate ROM_SIZE 0) = Inr rom_data"
    "out = output_lines rom_data"
  using assms by (auto simp: main_def and_then_def split: sum.splits)

text \<open>
  C8. A successful run prints exactly \<^verbatim>\<open>ROM_SIZE / 2\<close> = 512 lines. Each line is four
  characters out of \<^verbatim>\<open>0123456789ABCDEF\<close> and a newline, and the four characters, read
  as hexadecimal digits, are the four digits of the 16-bit word whose high byte is
  \<^verbatim>\<open>rom_data[2k]\<close> and whose low byte is \<^verbatim>\<open>rom_data[2k + 1]\<close>, most significant first.
  A slot of which no instruction wrote a byte is printed as \<^verbatim>\<open>0000\<close>.
\<close>

theorem output_format:
  assumes "main input = Inr out"
  shows "length out = ROM_SIZE div 2
    \<and> (\<forall>line \<in> set out. length line = 5 \<and> set (take 4 line) \<subseteq> set ''0123456789ABCDEF'' \<and> line ! 4 = NL)
    \<and> (\<exists>st rom_data.
          main_loop init_state (to_upper (c_str input)) = Inr st
        \<and> encode_loop (instructions st) (labels st) (replicate ROM_SIZE 0) = Inr rom_data
        \<and> length rom_data = ROM_SIZE
        \<and> (\<forall>k < ROM_SIZE div 2.
              map hex_value (take 4 (out ! k)) =
                nibbles (256 * unat (rom_data ! (2 * k)) + unat (rom_data ! (2 * k + 1))))
        \<and> (\<forall>k < ROM_SIZE div 2.
              (\<forall>i \<in> set (instructions st). unat (instr_addr i) div 2 \<noteq> k \<and> (unat (instr_addr i) + 1) div 2 \<noteq> k)
              \<longrightarrow> out ! k = ''0000'' @ [NL]))"
proof -
  from assms obtain st rom_data where
    ml: "main_loop init_state (to_upper (c_str input)) = Inr st" and
    el: "encode_loop (instructions st) (labels st) (replicate ROM_SIZE 0) = Inr rom_data" and
    out: "out = output_lines rom_data"
    by (rule main_success)
  have len: "length out = ROM_SIZE div 2" by (simp add: out output_lines_def)
  have shape: "\<forall>line \<in> set out. length line = 5 \<and> set (take 4 line) \<subseteq> set ''0123456789ABCDEF'' \<and> line ! 4 = NL"
    using output_line_shape by (auto simp: out output_lines_def)
  have rl: "length rom_data = ROM_SIZE" using encode_loop_length [OF el] by simp
  have line: "map hex_value (take 4 (out ! k)) =
      nibbles (256 * unat (rom_data ! (2 * k)) + unat (rom_data ! (2 * k + 1)))"
    if "k < ROM_SIZE div 2" for k
    unfolding out output_lines_nth [OF that] output_line_take by (rule fmt_pair_nibbles)
  have zero: "out ! k = ''0000'' @ [NL]"
    if k: "k < ROM_SIZE div 2"
      and un: "\<forall>i \<in> set (instructions st). unat (instr_addr i) div 2 \<noteq> k \<and> (unat (instr_addr i) + 1) div 2 \<noteq> k"
    for k
  proof -
    have a: "\<forall>i \<in> set (instructions st). unat (instr_addr i) \<noteq> 2 * k \<and> unat (instr_addr i) + 1 \<noteq> 2 * k"
      using un by (metis nonzero_mult_div_cancel_left zero_neq_numeral)
    have b: "\<forall>i \<in> set (instructions st). unat (instr_addr i) \<noteq> 2 * k + 1 \<and> unat (instr_addr i) + 1 \<noteq> 2 * k + 1"
      using un by (metis add.commute div_mult_self4 div_less one_less_numeral_iff semiring_norm(76) add_0 zero_neq_numeral)
    have k2: "2 * k < ROM_SIZE" "2 * k + 1 < ROM_SIZE" using k by (simp_all add: ROM_SIZE_def)
    have "rom_data ! (2 * k) = 0" using encode_loop_untouched [OF el a] k2 by simp
    moreover have "rom_data ! (2 * k + 1) = 0" using encode_loop_untouched [OF el b] k2 by simp
    ultimately show ?thesis
      by (simp add: out output_lines_nth [OF k] output_line_def fmt_02X_def hex_digit_def)
  qed
  from len shape ml el rl line zero show ?thesis by blast
qed

text \<open>The theorem at the program \<^verbatim>\<open>ADD R1 R2 R3\<close>: 512 lines, the first is \<^verbatim>\<open>0253\<close>, whose
  digits are those of the word \<^verbatim>\<open>0x0253\<close>, and the second, which no instruction wrote, is
  \<^verbatim>\<open>0000\<close>.\<close>

theorem output_format_witness:
  "main ''ADD R1 R2 R3\<newline>'' = Inr (output_lines ((replicate ROM_SIZE 0)[0 := 0x02, 1 := 0x53]))
   \<and> length (output_lines ((replicate ROM_SIZE 0)[0 := 0x02, 1 := 0x53])) = ROM_SIZE div 2
   \<and> output_lines ((replicate ROM_SIZE 0)[0 := 0x02, 1 := 0x53]) ! 0 = ''0253'' @ [NL]
   \<and> map hex_value (take 4 (output_lines ((replicate ROM_SIZE 0)[0 := 0x02, 1 := 0x53]) ! 0)) = [0, 2, 5, 3]
   \<and> output_lines ((replicate ROM_SIZE 0)[0 := 0x02, 1 := 0x53]) ! 1 = ''0000'' @ [NL]"
proof -
  let ?S = "\<lparr>instructions = [\<lparr>instr_addr = 0, instr_op = ''ADD'', instr_args = [''R1'', ''R2'', ''R3'']\<rparr>],
          labels = [], in_comment = False, next_addr = 2\<rparr>"
  let ?R = "(replicate ROM_SIZE (0 :: 8 word))[0 := 0x02, 1 := 0x53]"
  have up: "to_upper (c_str ''ADD R1 R2 R3\<newline>'') = ''ADD R1 R2 R3\<newline>''"
    by (simp add: main_eval)
  have p1: "main_loop init_state ''ADD R1 R2 R3\<newline>'' = Inr ?S"
    by (simp add: lex_eval drv_eval)
  have p2: "parse_instruction ''ADD'' [''R1'', ''R2'', ''R3''] [] 0 = Inr 0x0253"
    by (simp add: enc_eval num_eval lex_eval)
  have p4: "encode_loop (instructions ?S) (labels ?S) (replicate ROM_SIZE 0) = Inr ?R"
    by (simp add: p2 and_then_def ROM_SIZE_gt)
  have p3: "main ''ADD R1 R2 R3\<newline>'' = Inr (output_lines ?R)"
    unfolding main_def up p1 using p4 by (simp add: and_then_def)
  have k: "0 < ROM_SIZE div 2" "1 < ROM_SIZE div 2" by (simp_all add: ROM_SIZE_def)
  from output_format [OF p3] obtain st rom_data where
    ml: "main_loop init_state (to_upper (c_str ''ADD R1 R2 R3\<newline>'')) = Inr st" and
    el: "encode_loop (instructions st) (labels st) (replicate ROM_SIZE 0) = Inr rom_data" and
    len: "length (output_lines ?R) = ROM_SIZE div 2" and
    nib: "\<forall>k < ROM_SIZE div 2. map hex_value (take 4 (output_lines ?R ! k)) =
            nibbles (256 * unat (rom_data ! (2 * k)) + unat (rom_data ! (2 * k + 1)))" and
    zero: "\<forall>k < ROM_SIZE div 2.
              (\<forall>i \<in> set (instructions st). unat (instr_addr i) div 2 \<noteq> k \<and> (unat (instr_addr i) + 1) div 2 \<noteq> k)
              \<longrightarrow> output_lines ?R ! k = ''0000'' @ [NL]"
    by blast
  have st: "st = ?S" using ml unfolding up p1 by simp
  have rom: "rom_data = ?R" using el p4 unfolding st by simp
  have l1: "output_lines ?R ! 1 = ''0000'' @ [NL]"
    using zero k(2) unfolding st by simp
  have "map hex_value (take 4 (output_lines ?R ! 0)) = nibbles (256 * unat (?R ! 0) + unat (?R ! 1))"
    using nib k(1) unfolding rom by simp
  then have n0: "map hex_value (take 4 (output_lines ?R ! 0)) = [0, 2, 5, 3]"
    by (simp add: nibbles_def ROM_SIZE_def)
  have l0: "output_lines ?R ! 0 = ''0253'' @ [NL]"
    by (simp add: output_lines_nth [OF k(1)] output_line_def fmt_02X_def hex_digit_def ROM_SIZE_def)
  from p3 len l0 n0 l1 show ?thesis by simp
qed

end
